theory Spec2Isabelle
  imports Complex_Main
begin

section \<open>Values and exceptions\<close>

text \<open>
  A value as \<^verbatim>\<open>yaml.safe_load\<close> produces it and as the code passes it around under the
  annotation \<^verbatim>\<open>Any\<close>: null, booleans, integers, strings, lists and string-keyed
  dictionaries (an association list in document order; the first binding of a key is the
  one a lookup sees). Floats and timestamps of YAML are not modelled: a script that
  uses one is outside this model.
\<close>

datatype yaml =
    YNull
  | YBool bool
  | YInt int
  | YStr string
  | YList "yaml list"
  | YDict "(string \<times> yaml) list"

text \<open>
  Python exceptions are values: the class and \<^verbatim>\<open>str(e)\<close>. \<open>DriverError\<close> stands for the
  errors of the browser library, \<open>YAMLError\<close> for those of the YAML library, and
  \<open>KeyboardInterrupt\<close> for the exceptions that derive from \<^verbatim>\<open>BaseException\<close> only,
  which \<^verbatim>\<open>except Exception\<close> does not catch.
\<close>

datatype exn_class =
    FileNotFoundError
  | ValueError
  | TypeError
  | KeyError
  | AttributeError
  | AssertionError
  | YAMLError
  | DriverError
  | KeyboardInterrupt

datatype exn = Exn exn_class string

fun exn_str :: "exn \<Rightarrow> string" where
  "exn_str (Exn c m) = m"

fun is_Exception :: "exn \<Rightarrow> bool" where
  "is_Exception (Exn c m) = (c \<noteq> KeyboardInterrupt)"

text \<open>Python truthiness, as \<^verbatim>\<open>not x\<close> and \<^verbatim>\<open>if x\<close> read a value.\<close>

fun truthy :: "yaml \<Rightarrow> bool" where
  "truthy YNull = False"
| "truthy (YBool b) = b"
| "truthy (YInt n) = (n \<noteq> 0)"
| "truthy (YStr s) = (s \<noteq> [])"
| "truthy (YList xs) = (xs \<noteq> [])"
| "truthy (YDict kvs) = (kvs \<noteq> [])"

definition quote :: string where
  "quote = [CHR 0x27]"

definition newline :: string where
  "newline = [CHR 0x0A]"

fun dec_nat :: "nat \<Rightarrow> string" where
  "dec_nat n =
     (if n < 10 then [''0123456789'' ! n]
      else dec_nat (n div 10) @ [''0123456789'' ! (n mod 10)])"

declare dec_nat.simps [simp del]

definition dec_int :: "int \<Rightarrow> string" where
  "dec_int i = (if i < 0 then ''-'' @ dec_nat (nat (- i)) else dec_nat (nat i))"

text \<open>
  \<^verbatim>\<open>str(x)\<close> inside an f-string. The text Python prints for a list or a dictionary is
  its \<^verbatim>\<open>repr\<close>, which is taken as a parameter.
\<close>

fun py_str :: "(yaml \<Rightarrow> string) \<Rightarrow> yaml \<Rightarrow> string" where
  "py_str rp YNull = ''None''"
| "py_str rp (YBool b) = (if b then ''True'' else ''False'')"
| "py_str rp (YInt n) = dec_int n"
| "py_str rp (YStr s) = s"
| "py_str rp v = rp v"

fun type_name :: "yaml \<Rightarrow> string" where
  "type_name YNull = ''NoneType''"
| "type_name (YBool b) = ''bool''"
| "type_name (YInt n) = ''int''"
| "type_name (YStr s) = ''str''"
| "type_name (YList xs) = ''list''"
| "type_name (YDict kvs) = ''dict''"

definition keys :: "(string \<times> yaml) list \<Rightarrow> string list" where
  "keys d = map fst d"

definition dict_get :: "(string \<times> yaml) list \<Rightarrow> string \<Rightarrow> yaml \<Rightarrow> yaml" where
  "dict_get d k dflt = (case map_of d k of None \<Rightarrow> dflt | Some v \<Rightarrow> v)"

definition dict_del :: "string \<Rightarrow> (string \<times> yaml) list \<Rightarrow> (string \<times> yaml) list" where
  "dict_del k d = filter (\<lambda>kv. fst kv \<noteq> k) d"

section \<open>Script model and parser (script\_parser.py)\<close>

record TestStep =
  action :: yaml
  params :: "(string \<times> yaml) list"

record TestScript =
  name :: yaml
  description :: yaml
  base_url :: yaml
  headless :: yaml
  steps :: "TestStep list"
  timeout :: yaml
  screenshot_on_failure :: yaml

text \<open>
  \<^verbatim>\<open>TestStep(action=step.pop('action'), **step)\<close> for one element of the \<^verbatim>\<open>steps\<close>
  value. Only a dictionary has a \<^verbatim>\<open>pop\<close> that accepts a string; a missing
  \<^verbatim>\<open>action\<close> key raises KeyError, and a remaining key \<^verbatim>\<open>self\<close> collides with the
  first parameter of \<^verbatim>\<open>__init__(self, action, **kwargs)\<close>.
\<close>

fun make_step :: "yaml \<Rightarrow> exn + TestStep" where
  "make_step (YDict d) =
     (case map_of d ''action'' of
        None \<Rightarrow> Inl (Exn KeyError (quote @ ''action'' @ quote))
      | Some a \<Rightarrow>
          (let rest = dict_del ''action'' d in
           if ''self'' \<in> set (keys rest)
           then Inl (Exn TypeError
                  (''TestStep.__init__() got multiple values for argument '' @ quote @ ''self'' @ quote))
           else Inr \<lparr>action = a, params = rest\<rparr>))"
| "make_step (YList xs) =
     Inl (Exn TypeError (quote @ ''str'' @ quote @ '' object cannot be interpreted as an integer''))"
| "make_step v =
     Inl (Exn AttributeError
       (quote @ type_name v @ quote @ '' object has no attribute '' @ quote @ ''pop'' @ quote))"

fun make_steps :: "yaml list \<Rightarrow> exn + TestStep list" where
  "make_steps [] = Inr []"
| "make_steps (v # vs) =
     (case make_step v of
        Inl e \<Rightarrow> Inl e
      | Inr s \<Rightarrow> (case make_steps vs of Inl e \<Rightarrow> Inl e | Inr ss \<Rightarrow> Inr (s # ss)))"

text \<open>
  The comprehension of \<^verbatim>\<open>from_dict\<close> iterates whatever \<^verbatim>\<open>data.get('steps', [])\<close> is:
  a list gives its elements, a string its characters and a dictionary its keys (strings,
  which have no \<^verbatim>\<open>pop\<close>), anything else is not iterable.
\<close>

fun iter_steps :: "yaml \<Rightarrow> exn + yaml list" where
  "iter_steps (YList xs) = Inr xs"
| "iter_steps (YStr s) = Inr (map (\<lambda>c. YStr [c]) s)"
| "iter_steps (YDict kvs) = Inr (map YStr (keys kvs))"
| "iter_steps v =
     Inl (Exn TypeError (quote @ type_name v @ quote @ '' object is not iterable''))"

definition from_dict :: "(string \<times> yaml) list \<Rightarrow> exn + TestScript" where
  "from_dict data =
     (case iter_steps (dict_get data ''steps'' (YList [])) of
        Inl e \<Rightarrow> Inl e
      | Inr vs \<Rightarrow>
          (case make_steps vs of
             Inl e \<Rightarrow> Inl e
           | Inr ss \<Rightarrow>
               Inr \<lparr>name = dict_get data ''name'' (YStr ''Unnamed Test''),
                    description = dict_get data ''description'' (YStr ''''),
                    base_url = dict_get data ''base_url'' (YStr ''http://localhost:5000''),
                    headless = dict_get data ''headless'' (YBool True),
                    steps = ss,
                    timeout = dict_get data ''timeout'' (YInt 30000),
                    screenshot_on_failure = dict_get data ''screenshot_on_failure'' (YBool True)\<rparr>))"

text \<open>
  The outside world, fixed for one run of the program:
  \<^item> \<open>path_exists\<close>, \<open>safe_load\<close>: the file system and the YAML library;
  \<^item> \<open>expanduser\<close>, \<open>absolute\<close>: the path operations of \<^verbatim>\<open>upload_file\<close>;
  \<^item> \<open>drv\<close>: the browser library. A call is answered from the calls made before it
    (the trace) and the call itself, with a value or an exception; \<open>drv_count\<close> answers
    \<^verbatim>\<open>Locator.count()\<close>, whose result is an integer;
  \<^item> \<open>clock\<close>: the k-th reading of \<^verbatim>\<open>datetime.now()\<close>, in microseconds;
  \<^item> \<open>repr\<close>: Python's \<^verbatim>\<open>repr\<close> of a list or dictionary;
  \<^item> \<open>object_attr\<close>: for an attribute name that a \<^verbatim>\<open>BrowserActions\<close> object has from
    Python's \<^verbatim>\<open>object\<close> (such as \<^verbatim>\<open>__class__\<close>), the message of the TypeError that
    calling and awaiting it ends in; None for a name the object does not have.
\<close>

datatype call = Call string "yaml list" "(string \<times> yaml) list"

record env =
  path_exists :: "string \<Rightarrow> bool"
  safe_load :: "string \<Rightarrow> exn + yaml"
  expanduser :: "string \<Rightarrow> string"
  absolute :: "string \<Rightarrow> string"
  drv :: "call list \<Rightarrow> call \<Rightarrow> exn + yaml"
  drv_count :: "call list \<Rightarrow> call \<Rightarrow> exn + int"
  clock :: "nat \<Rightarrow> int"
  repr :: "yaml \<Rightarrow> string"
  object_attr :: "string \<Rightarrow> string option"

definition parse_file :: "env \<Rightarrow> string \<Rightarrow> exn + TestScript" where
  "parse_file fs file_path =
     (if \<not> path_exists fs file_path
      then Inl (Exn FileNotFoundError (''Test script not found: '' @ file_path))
      else (case safe_load fs file_path of
              Inl e \<Rightarrow> Inl e
            | Inr (YDict data) \<Rightarrow> from_dict data
            | Inr v \<Rightarrow> Inl (Exn ValueError ''Test script must be a YAML dictionary'')))"

definition valid_actions :: "(string \<times> string list) list" where
  "valid_actions =
     [(''navigate'', [''url'']),
      (''click'', [''selector'']),
      (''type'', [''selector'', ''text'']),
      (''wait_for_selector'', [''selector'']),
      (''assert_text'', [''selector'', ''expected'']),
      (''assert_visible'', [''selector'']),
      (''upload_file'', [''selector'', ''file_path'']),
      (''screenshot'', [''filename'']),
      (''wait'', [''ms'']),
      (''select_option'', [''selector'', ''value'']),
      (''check'', [''selector'']),
      (''uncheck'', [''selector'']),
      (''hover'', [''selector'']),
      (''press'', [''selector'', ''key'']),
      (''evaluate_js'', [''script'']),
      (''count_elements'', [''selector'']),
      (''assert_count'', [''selector'', ''expected'']),
      (''assert_min_count'', [''selector'', ''minimum'']),
      (''get_text'', [''selector''])]"

text \<open>\<^verbatim>\<open>repr\<close> of a list of the registry's parameter names, as the f-string prints it.\<close>

fun join :: "string \<Rightarrow> string list \<Rightarrow> string" where
  "join sep [] = []"
| "join sep [x] = x"
| "join sep (x # y # ys) = x @ sep @ join sep (y # ys)"

definition repr_names :: "string list \<Rightarrow> string" where
  "repr_names ps = ''['' @ join '', '' (map (\<lambda>p. quote @ p @ quote) ps) @ '']''"

text \<open>
  \<^verbatim>\<open>step.action not in valid_actions\<close> hashes the action: a list or a dictionary raises
  TypeError, and a value that is not a string equals no key.
\<close>

fun registry_lookup :: "yaml \<Rightarrow> exn + string list option" where
  "registry_lookup (YStr s) = Inr (map_of valid_actions s)"
| "registry_lookup (YList xs) =
     Inl (Exn TypeError (''unhashable type: '' @ quote @ ''list'' @ quote))"
| "registry_lookup (YDict kvs) =
     Inl (Exn TypeError (''unhashable type: '' @ quote @ ''dict'' @ quote))"
| "registry_lookup v = Inr None"

fun validate_steps ::
  "(yaml \<Rightarrow> string) \<Rightarrow> nat \<Rightarrow> TestStep list \<Rightarrow> string list \<Rightarrow> exn + string list" where
  "validate_steps rp i [] errors = Inr errors"
| "validate_steps rp i (step # rest) errors =
     (case registry_lookup (action step) of
        Inl e \<Rightarrow> Inl e
      | Inr None \<Rightarrow>
          validate_steps rp (Suc i) rest
            (errors @ [''Step '' @ dec_nat i @ '': Unknown action '' @ quote
                        @ py_str rp (action step) @ quote])
      | Inr (Some required_params) \<Rightarrow>
          (let missing = filter (\<lambda>p. p \<notin> set (keys (params step))) required_params in
           if missing \<noteq> []
           then validate_steps rp (Suc i) rest
                  (errors @ [''Step '' @ dec_nat i @ '': Action '' @ quote
                              @ py_str rp (action step) @ quote
                              @ '' missing required parameters: '' @ repr_names missing])
           else validate_steps rp (Suc i) rest errors))"

definition validate_script :: "(yaml \<Rightarrow> string) \<Rightarrow> TestScript \<Rightarrow> exn + string list" where
  "validate_script rp script =
     (let errors = [];
          errors = (if \<not> truthy (name script) then errors @ [''Script must have a name'']
                    else errors);
          errors = (if steps script = [] then errors @ [''Script must have at least one step'']
                    else errors)
      in validate_steps rp 1 (steps script) errors)"

section \<open>Browser actions (actions.py)\<close>

text \<open>
  The mutable state of one run: the calls made on the browser library so far, the number of
  clock readings, and the attributes of the \<^verbatim>\<open>BrowserEngine\<close> object (for the handles
  only whether they are set). \<open>actions_page\<close> is the \<^verbatim>\<open>page\<close> attribute of the
  \<^verbatim>\<open>BrowserActions\<close> object: None while it is the page it was created with, \<open>Some v\<close>
  once \<^verbatim>\<open>__init__\<close> has been called again with \<open>v\<close>.
\<close>

record state =
  trace :: "call list"
  ticks :: nat
  actions_page :: "yaml option"
  self_headless :: yaml
  self_browser_type :: string
  self_playwright :: bool
  self_browser :: bool
  self_context :: bool
  self_page :: bool
  self_actions :: bool

type_synonym 'a result = "(exn + 'a) \<times> state"

definition perform :: "env \<Rightarrow> call \<Rightarrow> state \<Rightarrow> yaml result" where
  "perform env c s = (drv env (trace s) c, s\<lparr>trace := trace s @ [c]\<rparr>)"

definition perform_count :: "env \<Rightarrow> call \<Rightarrow> state \<Rightarrow> int result" where
  "perform_count env c s = (drv_count env (trace s) c, s\<lparr>trace := trace s @ [c]\<rparr>)"

definition no_attribute :: "string \<Rightarrow> string \<Rightarrow> exn" where
  "no_attribute ty a =
     Exn AttributeError (quote @ ty @ quote @ '' object has no attribute '' @ quote @ a @ quote)"

text \<open>
  \<^verbatim>\<open>self.page.m(*args, **kw)\<close> inside \<^verbatim>\<open>BrowserActions\<close>: a replaced page is a plain
  value, which has none of the methods used.
\<close>

definition page_call ::
  "env \<Rightarrow> string \<Rightarrow> yaml list \<Rightarrow> (string \<times> yaml) list \<Rightarrow> state \<Rightarrow> yaml result" where
  "page_call env m args kw s =
     (case actions_page s of
        Some v \<Rightarrow> (Inl (no_attribute (type_name v) m), s)
      | None \<Rightarrow> perform env (Call (''page.'' @ m) args kw) s)"

text \<open>
  How Python binds the call \<^verbatim>\<open>f(**params)\<close> to the parameters of \<open>f(self, required..., optional...=d)\<close>,
  with or without a trailing \<^verbatim>\<open>**kwargs\<close>: the keywords are matched in order (\<^verbatim>\<open>self\<close>
  is taken already, an unknown keyword needs \<^verbatim>\<open>**kwargs\<close>), then the required
  parameters must all be there.
\<close>

fun kw_scan :: "string \<Rightarrow> string list \<Rightarrow> bool \<Rightarrow> string list \<Rightarrow> exn option" where
  "kw_scan f allowed var_kw [] = None"
| "kw_scan f allowed var_kw (k # ks) =
     (if k = ''self''
      then Some (Exn TypeError (f @ ''() got multiple values for argument '' @ quote @ k @ quote))
      else if \<not> var_kw \<and> k \<notin> set allowed
      then Some (Exn TypeError (f @ ''() got an unexpected keyword argument '' @ quote @ k @ quote))
      else kw_scan f allowed var_kw ks)"

definition missing_msg :: "string \<Rightarrow> string list \<Rightarrow> string" where
  "missing_msg f missing =
     f @ ''() missing '' @ dec_nat (length missing) @ '' required positional argument''
       @ (if length missing = 1 then [] else ''s'') @ '': ''
       @ join '' and '' (map (\<lambda>p. quote @ p @ quote) missing)"

definition bind_args ::
  "string \<Rightarrow> string list \<Rightarrow> string list \<Rightarrow> bool \<Rightarrow> (string \<times> yaml) list \<Rightarrow> exn option" where
  "bind_args f required optional var_kw ps =
     (case kw_scan f (required @ optional) var_kw (keys ps) of
        Some e \<Rightarrow> Some e
      | None \<Rightarrow>
          (let missing = filter (\<lambda>p. p \<notin> set (keys ps)) required in
           if missing \<noteq> [] then Some (Exn TypeError (missing_msg f missing)) else None))"

definition arg :: "(string \<times> yaml) list \<Rightarrow> string \<Rightarrow> yaml" where
  "arg ps p = dict_get ps p YNull"

definition kwargs_of :: "string list \<Rightarrow> (string \<times> yaml) list \<Rightarrow> (string \<times> yaml) list" where
  "kwargs_of declared ps = filter (\<lambda>kv. fst kv \<notin> set declared) ps"

definition navigate :: "env \<Rightarrow> (string \<times> yaml) list \<Rightarrow> state \<Rightarrow> yaml result" where
  "navigate env ps s =
     (case bind_args ''BrowserActions.navigate'' [''url''] [] True ps of
        Some e \<Rightarrow> (Inl e, s)
      | None \<Rightarrow> page_call env ''goto'' [arg ps ''url''] (kwargs_of [''url''] ps) s)"

definition click :: "env \<Rightarrow> (string \<times> yaml) list \<Rightarrow> state \<Rightarrow> yaml result" where
  "click env ps s =
     (case bind_args ''BrowserActions.click'' [''selector''] [] True ps of
        Some e \<Rightarrow> (Inl e, s)
      | None \<Rightarrow> page_call env ''click'' [arg ps ''selector''] (kwargs_of [''selector''] ps) s)"

definition type_text :: "env \<Rightarrow> (string \<times> yaml) list \<Rightarrow> state \<Rightarrow> yaml result" where
  "type_text env ps s =
     (case bind_args ''BrowserActions.type'' [''selector'', ''text''] [] True ps of
        Some e \<Rightarrow> (Inl e, s)
      | None \<Rightarrow>
          page_call env ''fill'' [arg ps ''selector'', arg ps ''text'']
            (kwargs_of [''selector'', ''text''] ps) s)"

definition wait_for_selector :: "env \<Rightarrow> (string \<times> yaml) list \<Rightarrow> state \<Rightarrow> yaml result" where
  "wait_for_selector env ps s =
     (case bind_args ''BrowserActions.wait_for_selector'' [''selector''] [''timeout''] True ps of
        Some e \<Rightarrow> (Inl e, s)
      | None \<Rightarrow>
          page_call env ''wait_for_selector'' [arg ps ''selector'']
            ((''timeout'', dict_get ps ''timeout'' (YInt 30000))
               # kwargs_of [''selector'', ''timeout''] ps) s)"

definition assert_text :: "env \<Rightarrow> (string \<times> yaml) list \<Rightarrow> state \<Rightarrow> yaml result" where
  "assert_text env ps s =
     (case bind_args ''BrowserActions.assert_text'' [''selector'', ''expected''] [] True ps of
        Some e \<Rightarrow> (Inl e, s)
      | None \<Rightarrow>
          (case page_call env ''locator'' [arg ps ''selector''] [] s of
             (Inl e, s') \<Rightarrow> (Inl e, s')
           | (Inr element, s') \<Rightarrow>
               perform env (Call ''expect.to_contain_text'' [arg ps ''expected'']
                 (kwargs_of [''selector'', ''expected''] ps)) s'))"

definition assert_visible :: "env \<Rightarrow> (string \<times> yaml) list \<Rightarrow> state \<Rightarrow> yaml result" where
  "assert_visible env ps s =
     (case bind_args ''BrowserActions.assert_visible'' [''selector''] [] True ps of
        Some e \<Rightarrow> (Inl e, s)
      | None \<Rightarrow>
          (case page_call env ''locator'' [arg ps ''selector''] [] s of
             (Inl e, s') \<Rightarrow> (Inl e, s')
           | (Inr element, s') \<Rightarrow>
               perform env (Call ''expect.to_be_visible'' [] (kwargs_of [''selector''] ps)) s'))"

text \<open>
  \<^verbatim>\<open>Path(file_path)\<close> accepts a string only; the file is looked for before the page is
  touched.
\<close>

definition upload_file :: "env \<Rightarrow> (string \<times> yaml) list \<Rightarrow> state \<Rightarrow> yaml result" where
  "upload_file env ps s =
     (case bind_args ''BrowserActions.upload_file'' [''selector'', ''file_path''] [] True ps of
        Some e \<Rightarrow> (Inl e, s)
      | None \<Rightarrow>
          (case arg ps ''file_path'' of
             YStr file_path \<Rightarrow>
               (if \<not> path_exists env (expanduser env file_path)
                then (Inl (Exn FileNotFoundError (''File not found: '' @ file_path)), s)
                else page_call env ''set_input_files''
                       [arg ps ''selector'', YStr (absolute env (expanduser env file_path))]
                       (kwargs_of [''selector'', ''file_path''] ps) s)
           | v \<Rightarrow>
               (Inl (Exn TypeError
                  (''expected str, bytes or os.PathLike object, not '' @ type_name v)), s)))"

text \<open>
  \<^verbatim>\<open>self.page.screenshot(path=filename, **kwargs)\<close>: a second \<^verbatim>\<open>path\<close> among the extra
  keywords is a TypeError of the call itself.
\<close>

definition screenshot :: "env \<Rightarrow> (string \<times> yaml) list \<Rightarrow> state \<Rightarrow> yaml result" where
  "screenshot env ps s =
     (case bind_args ''BrowserActions.screenshot'' [''filename''] [] True ps of
        Some e \<Rightarrow> (Inl e, s)
      | None \<Rightarrow>
          (case actions_page s of
             Some v \<Rightarrow> (Inl (no_attribute (type_name v) ''screenshot''), s)
           | None \<Rightarrow>
               (if ''path'' \<in> set (keys (kwargs_of [''filename''] ps))
                then (Inl (Exn TypeError
                        (''got multiple values for keyword argument '' @ quote @ ''path'' @ quote)), s)
                else perform env (Call ''page.screenshot'' []
                       ((''path'', arg ps ''filename'') # kwargs_of [''filename''] ps)) s)))"

definition wait :: "env \<Rightarrow> (string \<times> yaml) list \<Rightarrow> state \<Rightarrow> yaml result" where
  "wait env ps s =
     (case bind_args ''BrowserActions.wait'' [''ms''] [] True ps of
        Some e \<Rightarrow> (Inl e, s)
      | None \<Rightarrow> page_call env ''wait_for_timeout'' [arg ps ''ms''] [] s)"

definition select_option :: "env \<Rightarrow> (string \<times> yaml) list \<Rightarrow> state \<Rightarrow> yaml result" where
  "select_option env ps s =
     (case bind_args ''BrowserActions.select_option'' [''selector'', ''value''] [] True ps of
        Some e \<Rightarrow> (Inl e, s)
      | None \<Rightarrow>
          page_call env ''select_option'' [arg ps ''selector'', arg ps ''value'']
            (kwargs_of [''selector'', ''value''] ps) s)"

definition check :: "env \<Rightarrow> (string \<times> yaml) list \<Rightarrow> state \<Rightarrow> yaml result" where
  "check env ps s =
     (case bind_args ''BrowserActions.check'' [''selector''] [] True ps of
        Some e \<Rightarrow> (Inl e, s)
      | None \<Rightarrow> page_call env ''check'' [arg ps ''selector''] (kwargs_of [''selector''] ps) s)"

definition uncheck :: "env \<Rightarrow> (string \<times> yaml) list \<Rightarrow> state \<Rightarrow> yaml result" where
  "uncheck env ps s =
     (case bind_args ''BrowserActions.uncheck'' [''selector''] [] True ps of
        Some e \<Rightarrow> (Inl e, s)
      | None \<Rightarrow> page_call env ''uncheck'' [arg ps ''selector''] (kwargs_of [''selector''] ps) s)"

definition hover :: "env \<Rightarrow> (string \<times> yaml) list \<Rightarrow> state \<Rightarrow> yaml result" where
  "hover env ps s =
     (case bind_args ''BrowserActions.hover'' [''selector''] [] True ps of
        Some e \<Rightarrow> (Inl e, s)
      | None \<Rightarrow> page_call env ''hover'' [arg ps ''selector''] (kwargs_of [''selector''] ps) s)"

definition press :: "env \<Rightarrow> (string \<times> yaml) list \<Rightarrow> state \<Rightarrow> yaml result" where
  "press env ps s =
     (case bind_args ''BrowserActions.press'' [''selector'', ''key''] [] True ps of
        Some e \<Rightarrow> (Inl e, s)
      | None \<Rightarrow>
          page_call env ''press'' [arg ps ''selector'', arg ps ''key'']
            (kwargs_of [''selector'', ''key''] ps) s)"

definition evaluate_js :: "env \<Rightarrow> (string \<times> yaml) list \<Rightarrow> state \<Rightarrow> yaml result" where
  "evaluate_js env ps s =
     (case bind_args ''BrowserActions.evaluate_js'' [''script''] [] True ps of
        Some e \<Rightarrow> (Inl e, s)
      | None \<Rightarrow> page_call env ''evaluate'' [arg ps ''script''] (kwargs_of [''script''] ps) s)"

text \<open>
  \<^verbatim>\<open>self.page.locator(selector).count()\<close>: the locator, then its count. None of the four
  locator-reading actions passes its extra keywords on.
\<close>

definition locator_count :: "env \<Rightarrow> yaml \<Rightarrow> state \<Rightarrow> int result" where
  "locator_count env selector s =
     (case page_call env ''locator'' [selector] [] s of
        (Inl e, s') \<Rightarrow> (Inl e, s')
      | (Inr loc, s') \<Rightarrow> perform_count env (Call ''locator.count'' [] []) s')"

definition count_elements :: "env \<Rightarrow> (string \<times> yaml) list \<Rightarrow> state \<Rightarrow> yaml result" where
  "count_elements env ps s =
     (case bind_args ''BrowserActions.count_elements'' [''selector''] [] True ps of
        Some e \<Rightarrow> (Inl e, s)
      | None \<Rightarrow>
          (case locator_count env (arg ps ''selector'') s of
             (Inl e, s') \<Rightarrow> (Inl e, s')
           | (Inr count, s') \<Rightarrow>
               (if count = 0
                then (Inl (Exn AssertionError
                        (''Expected at least 1 element matching '' @ quote
                           @ py_str (repr env) (arg ps ''selector'') @ quote @ '', found 0'')), s')
                else (Inr YNull, s'))))"

text \<open>
  \<^verbatim>\<open>count != expected\<close> and \<^verbatim>\<open>count < minimum\<close> with an integer on the left: a boolean
  counts as 0 or 1, any other value is unequal to an integer and cannot be ordered with one.
\<close>

fun py_num :: "yaml \<Rightarrow> int option" where
  "py_num (YInt n) = Some n"
| "py_num (YBool b) = Some (if b then 1 else 0)"
| "py_num v = None"

definition assert_count :: "env \<Rightarrow> (string \<times> yaml) list \<Rightarrow> state \<Rightarrow> yaml result" where
  "assert_count env ps s =
     (case bind_args ''BrowserActions.assert_count'' [''selector'', ''expected''] [] True ps of
        Some e \<Rightarrow> (Inl e, s)
      | None \<Rightarrow>
          (case locator_count env (arg ps ''selector'') s of
             (Inl e, s') \<Rightarrow> (Inl e, s')
           | (Inr count, s') \<Rightarrow>
               (if py_num (arg ps ''expected'') \<noteq> Some count
                then (Inl (Exn AssertionError
                        (''Expected '' @ py_str (repr env) (arg ps ''expected'')
                           @ '' elements matching '' @ quote
                           @ py_str (repr env) (arg ps ''selector'') @ quote
                           @ '', found '' @ dec_int count)), s')
                else (Inr YNull, s'))))"

definition assert_min_count :: "env \<Rightarrow> (string \<times> yaml) list \<Rightarrow> state \<Rightarrow> yaml result" where
  "assert_min_count env ps s =
     (case bind_args ''BrowserActions.assert_min_count'' [''selector'', ''minimum''] [] True ps of
        Some e \<Rightarrow> (Inl e, s)
      | None \<Rightarrow>
          (case locator_count env (arg ps ''selector'') s of
             (Inl e, s') \<Rightarrow> (Inl e, s')
           | (Inr count, s') \<Rightarrow>
               (case py_num (arg ps ''minimum'') of
                  None \<Rightarrow>
                    (Inl (Exn TypeError
                       (quote @ ''<'' @ quote @ '' not supported between instances of ''
                          @ quote @ ''int'' @ quote @ '' and '' @ quote
                          @ type_name (arg ps ''minimum'') @ quote)), s')
                | Some minimum \<Rightarrow>
                    (if count < minimum
                     then (Inl (Exn AssertionError
                             (''Expected at least '' @ py_str (repr env) (arg ps ''minimum'')
                                @ '' elements matching '' @ quote
                                @ py_str (repr env) (arg ps ''selector'') @ quote
                                @ '', found '' @ dec_int count)), s')
                     else (Inr YNull, s')))))"

definition get_text :: "env \<Rightarrow> (string \<times> yaml) list \<Rightarrow> state \<Rightarrow> yaml result" where
  "get_text env ps s =
     (case bind_args ''BrowserActions.get_text'' [''selector''] [] True ps of
        Some e \<Rightarrow> (Inl e, s)
      | None \<Rightarrow>
          (case page_call env ''locator'' [arg ps ''selector''] [] s of
             (Inl e, s') \<Rightarrow> (Inl e, s')
           | (Inr element, s') \<Rightarrow>
               (case perform env (Call ''locator.text_content'' [] []) s' of
                  (Inl e, s'') \<Rightarrow> (Inl e, s'')
                | (Inr text, s'') \<Rightarrow> (Inr YNull, s''))))"

subsection \<open>Dispatch by name\<close>

text \<open>
  \<^verbatim>\<open>getattr(self, action, None)\<close> sees every attribute of the object, not only the
  nineteen action methods: also \<^verbatim>\<open>execute_action\<close> itself, \<^verbatim>\<open>__init__\<close>, the
  \<^verbatim>\<open>page\<close> attribute, and what every Python object has.
\<close>

datatype attr =
    Method "env \<Rightarrow> (string \<times> yaml) list \<Rightarrow> state \<Rightarrow> yaml result"
  | SelfDispatch
  | Ctor
  | NotCallable string
  | ObjectAttr string

definition methods ::
  "(string \<times> (env \<Rightarrow> (string \<times> yaml) list \<Rightarrow> state \<Rightarrow> yaml result)) list" where
  "methods =
     [(''navigate'', navigate),
      (''click'', click),
      (''type'', type_text),
      (''wait_for_selector'', wait_for_selector),
      (''assert_text'', assert_text),
      (''assert_visible'', assert_visible),
      (''upload_file'', upload_file),
      (''screenshot'', screenshot),
      (''wait'', wait),
      (''select_option'', select_option),
      (''check'', check),
      (''uncheck'', uncheck),
      (''hover'', hover),
      (''press'', press),
      (''evaluate_js'', evaluate_js),
      (''count_elements'', count_elements),
      (''assert_count'', assert_count),
      (''assert_min_count'', assert_min_count),
      (''get_text'', get_text)]"

definition getattr_actions :: "env \<Rightarrow> string \<Rightarrow> state \<Rightarrow> attr option" where
  "getattr_actions env a s =
     (case map_of methods a of
        Some m \<Rightarrow> Some (Method m)
      | None \<Rightarrow>
          if a = ''execute_action'' then Some SelfDispatch
          else if a = ''__init__'' then Some Ctor
          else if a = ''page'' then
            (case actions_page s of
               None \<Rightarrow> Some (NotCallable ''Page'')
             | Some YNull \<Rightarrow> None
             | Some v \<Rightarrow> Some (NotCallable (type_name v)))
          else map_option ObjectAttr (object_attr env a))"

definition not_mapping :: "yaml \<Rightarrow> exn" where
  "not_mapping v = Exn TypeError (''argument after ** must be a mapping, not '' @ type_name v)"

text \<open>
  \<^verbatim>\<open>execute_action(action, params)\<close>. The parameters are any value here, since the
  function can reach itself through the name \<^verbatim>\<open>execute_action\<close> and then unpacks the
  \<^verbatim>\<open>params\<close> entry of its parameters; each such call works on a strictly smaller value.
  Awaiting the None that \<^verbatim>\<open>__init__\<close> returns is a TypeError, after the page has been
  replaced.
\<close>

function execute_action :: "env \<Rightarrow> yaml \<Rightarrow> yaml \<Rightarrow> state \<Rightarrow> yaml result" where
  "execute_action env act ps s =
     (case act of
        YStr a \<Rightarrow>
          (case getattr_actions env a s of
             None \<Rightarrow> (Inl (Exn ValueError (''Unknown action: '' @ a)), s)
           | Some target \<Rightarrow>
               (case ps of
                  YDict d \<Rightarrow>
                    (case target of
                       Method m \<Rightarrow> m env d s
                     | SelfDispatch \<Rightarrow>
                         (case bind_args ''BrowserActions.execute_action''
                                 [''action'', ''params''] [] False d of
                            Some e \<Rightarrow> (Inl e, s)
                          | None \<Rightarrow> execute_action env (arg d ''action'') (arg d ''params'') s)
                     | Ctor \<Rightarrow>
                         (case bind_args ''BrowserActions.__init__'' [''page''] [] False d of
                            Some e \<Rightarrow> (Inl e, s)
                          | None \<Rightarrow>
                              (Inl (Exn TypeError
                                 (''object NoneType can'' @ quote
                                    @ ''t be used in '' @ quote @ ''await'' @ quote @ '' expression'')),
                               s\<lparr>actions_page := Some (arg d ''page'')\<rparr>))
                     | NotCallable ty \<Rightarrow>
                         (Inl (Exn TypeError (quote @ ty @ quote @ '' object is not callable'')), s)
                     | ObjectAttr msg \<Rightarrow> (Inl (Exn TypeError msg), s))
                | v \<Rightarrow> (Inl (not_mapping v), s)))
      | v \<Rightarrow>
          (Inl (Exn TypeError
             (''attribute name must be string, not '' @ quote @ type_name v @ quote)), s))"
  by pat_completeness auto
termination
proof (relation "measure (\<lambda>(env, act, ps, s). size ps)")
  show "wf (measure (\<lambda>(env, act, ps, s). size ps))"
    by simp
next
  fix env :: env and act ps :: yaml and s :: state and d :: "(string \<times> yaml) list"
  have "size (arg d ''params'') < size (YDict d)"
    by (induction d) (auto simp: arg_def dict_get_def split: option.splits)
  moreover assume "ps = YDict d"
  ultimately show "((env, arg d ''action'', arg d ''params'', s), env, act, ps, s)
      \<in> measure (\<lambda>(env, act, ps, s). size ps)"
    by simp
qed

declare execute_action.simps [simp del]

section \<open>Execution engine (browser\_engine.py)\<close>

text \<open>
  Timestamps are microseconds, the resolution of \<^verbatim>\<open>datetime\<close>; the duration in seconds
  is their difference divided by a million, a real number here where Python rounds to a
  float (the sign, and whether it is zero, are the same).
\<close>

record TestResult =
  script_name :: yaml
  passed :: bool
  error :: "string option"
  start_time :: "int option"
  end_time :: "int option"
  steps_executed :: nat
  steps_total :: nat
  screenshots :: "string list"

definition new_result :: "yaml \<Rightarrow> TestResult" where
  "new_result nm =
     \<lparr>script_name = nm, passed = False, error = None, start_time = None, end_time = None,
      steps_executed = 0, steps_total = 0, screenshots = []\<rparr>"

definition duration :: "TestResult \<Rightarrow> real" where
  "duration r =
     (case start_time r of
        None \<Rightarrow> 0
      | Some t0 \<Rightarrow>
          (case end_time r of
             None \<Rightarrow> 0
           | Some t1 \<Rightarrow> real_of_int (t1 - t0) / 1000000))"

definition now :: "env \<Rightarrow> state \<Rightarrow> int \<times> state" where
  "now env s = (clock env (ticks s), s\<lparr>ticks := Suc (ticks s)\<rparr>)"

definition init_engine :: "bool \<Rightarrow> string \<Rightarrow> call list \<Rightarrow> nat \<Rightarrow> state" where
  "init_engine hl bt tr tk =
     \<lparr>trace = tr, ticks = tk, actions_page = None, self_headless = YBool hl,
      self_browser_type = bt, self_playwright = False, self_browser = False,
      self_context = False, self_page = False, self_actions = False\<rparr>"

definition start :: "env \<Rightarrow> state \<Rightarrow> unit result" where
  "start env s =
     (case perform env (Call ''async_playwright.start'' [] []) s of
        (Inl e, s1) \<Rightarrow> (Inl e, s1)
      | (Inr pw, s1) \<Rightarrow>
          (let s1 = s1\<lparr>self_playwright := True\<rparr> in
           if self_browser_type s1 \<notin> {''chromium'', ''firefox'', ''webkit''}
           then (Inl (Exn ValueError (''Unknown browser type: '' @ self_browser_type s1)), s1)
           else
             (case perform env
                     (Call (''playwright.'' @ self_browser_type s1 @ ''.launch'') []
                        [(''headless'', self_headless s1)]) s1 of
                (Inl e, s2) \<Rightarrow> (Inl e, s2)
              | (Inr b, s2) \<Rightarrow>
                  (case perform env (Call ''browser.new_context'' [] [])
                          (s2\<lparr>self_browser := True\<rparr>) of
                     (Inl e, s3) \<Rightarrow> (Inl e, s3)
                   | (Inr c, s3) \<Rightarrow>
                       (case perform env (Call ''context.new_page'' [] [])
                               (s3\<lparr>self_context := True\<rparr>) of
                          (Inl e, s4) \<Rightarrow> (Inl e, s4)
                        | (Inr p, s4) \<Rightarrow>
                            (Inr (),
                             s4\<lparr>self_page := True, self_actions := True,
                                actions_page := None\<rparr>))))))"

definition stop :: "env \<Rightarrow> state \<Rightarrow> unit result" where
  "stop env s =
     (case (if self_context s then perform env (Call ''context.close'' [] []) s
            else (Inr YNull, s)) of
        (Inl e, s1) \<Rightarrow> (Inl e, s1)
      | (Inr u, s1) \<Rightarrow>
          (case (if self_browser s1 then perform env (Call ''browser.close'' [] []) s1
                 else (Inr YNull, s1)) of
             (Inl e, s2) \<Rightarrow> (Inl e, s2)
           | (Inr u, s2) \<Rightarrow>
               (case (if self_playwright s2 then perform env (Call ''playwright.stop'' [] []) s2
                      else (Inr YNull, s2)) of
                  (Inl e, s3) \<Rightarrow> (Inl e, s3)
                | (Inr u, s3) \<Rightarrow> (Inr (), s3))))"

text \<open>
  \<^verbatim>\<open>self.page.m(...)\<close> and \<^verbatim>\<open>self.actions.execute_action(...)\<close> inside the engine: both
  attributes are None until \<^verbatim>\<open>start\<close> has set them.
\<close>

definition engine_page_call ::
  "env \<Rightarrow> string \<Rightarrow> yaml list \<Rightarrow> (string \<times> yaml) list \<Rightarrow> state \<Rightarrow> yaml result" where
  "engine_page_call env m args kw s =
     (if \<not> self_page s then (Inl (no_attribute ''NoneType'' m), s)
      else perform env (Call (''page.'' @ m) args kw) s)"

definition dispatch_step :: "env \<Rightarrow> TestStep \<Rightarrow> state \<Rightarrow> yaml result" where
  "dispatch_step env step s =
     (if \<not> self_actions s then (Inl (no_attribute ''NoneType'' ''execute_action''), s)
      else execute_action env (action step) (YDict (params step)) s)"

definition replace_spaces :: "string \<Rightarrow> string" where
  "replace_spaces nm = map (\<lambda>c. if c = CHR '' '' then CHR ''_'' else c) nm"

definition step_error_msg :: "env \<Rightarrow> nat \<Rightarrow> TestStep \<Rightarrow> exn \<Rightarrow> string" where
  "step_error_msg env i step e =
     ''Step '' @ dec_nat i @ '' failed ('' @ py_str (repr env) (action step) @ ''): '' @ exn_str e"

text \<open>
  The inner \<^verbatim>\<open>except Exception\<close> of the loop, up to its \<^verbatim>\<open>raise\<close>: the exception that
  leaves the handler (the caught one, or one raised while taking the screenshot) and the
  result as the handler leaves it.
\<close>

definition step_failed ::
  "env \<Rightarrow> TestScript \<Rightarrow> nat \<Rightarrow> TestStep \<Rightarrow> exn \<Rightarrow> TestResult \<Rightarrow> state
     \<Rightarrow> (exn \<times> TestResult) \<times> state" where
  "step_failed env script i step e result s =
     (let result = result\<lparr>error := Some (step_error_msg env i step e)\<rparr> in
      if truthy (screenshot_on_failure script) then
        (case name script of
           YStr nm \<Rightarrow>
             (let screenshot_path = ''failure_'' @ replace_spaces nm @ ''_'' @ dec_nat i @ ''.png'' in
              case engine_page_call env ''screenshot'' [] [(''path'', YStr screenshot_path)] s of
                (Inl e2, s') \<Rightarrow> ((e2, result), s')
              | (Inr u, s') \<Rightarrow>
                  ((e, result\<lparr>screenshots := screenshots result @ [screenshot_path]\<rparr>), s'))
         | v \<Rightarrow> ((no_attribute (type_name v) ''replace'', result), s))
      else ((e, result), s))"

text \<open>
  The \<^verbatim>\<open>for\<close> loop over \<^verbatim>\<open>enumerate(script.steps, 1)\<close>: it ends normally (None) or
  with the exception that leaves it.
\<close>

fun run_steps ::
  "env \<Rightarrow> TestScript \<Rightarrow> nat \<Rightarrow> TestStep list \<Rightarrow> TestResult \<Rightarrow> state
     \<Rightarrow> (exn option \<times> TestResult) \<times> state" where
  "run_steps env script i [] result s = ((None, result), s)"
| "run_steps env script i (step # rest) result s =
     (case dispatch_step env step s of
        (Inr v, s') \<Rightarrow>
          run_steps env script (Suc i) rest
            (result\<lparr>steps_executed := steps_executed result + 1\<rparr>) s'
      | (Inl e, s') \<Rightarrow>
          if is_Exception e
          then (case step_failed env script i step e result s' of
                  ((e', result'), s'') \<Rightarrow> ((Some e', result'), s''))
          else ((Some e, result), s'))"

text \<open>The outer \<^verbatim>\<open>except Exception\<close> and the \<^verbatim>\<open>finally\<close> of \<^verbatim>\<open>execute_script\<close>.\<close>

definition script_failed :: "env \<Rightarrow> exn \<Rightarrow> TestResult \<Rightarrow> state \<Rightarrow> TestResult result" where
  "script_failed env e result s =
     (case now env s of
        (t1, s') \<Rightarrow>
          if is_Exception e
          then (let result = result\<lparr>passed := False\<rparr>;
                    result = (if error result = None \<or> error result = Some []
                              then result\<lparr>error := Some (exn_str e)\<rparr> else result)
                in (Inr (result\<lparr>end_time := Some t1\<rparr>), s'))
          else (Inl e, s'))"

definition execute_script :: "env \<Rightarrow> TestScript \<Rightarrow> state \<Rightarrow> TestResult result" where
  "execute_script env script s =
     (case now env s of
        (t0, s0) \<Rightarrow>
          (let result = (new_result (name script))
                 \<lparr>start_time := Some t0, steps_total := length (steps script)\<rparr> in
           case engine_page_call env ''set_default_timeout'' [timeout script] [] s0 of
             (Inl e, s1) \<Rightarrow> script_failed env e result s1
           | (Inr u, s1) \<Rightarrow>
               (case run_steps env script 1 (steps script) result s1 of
                  ((Some e, result'), s2) \<Rightarrow> script_failed env e result' s2
                | ((None, result'), s2) \<Rightarrow>
                    (case now env s2 of
                       (t1, s3) \<Rightarrow>
                         (Inr (result'\<lparr>passed := True, end_time := Some t1\<rparr>), s3)))))"

text \<open>
  \<^verbatim>\<open>script.headless != self.headless\<close>: numbers and booleans compare by value (True
  equals 1); other values are compared structurally.
\<close>

definition py_eq :: "yaml \<Rightarrow> yaml \<Rightarrow> bool" where
  "py_eq a b =
     (case (py_num a, py_num b) of
        (Some x, Some y) \<Rightarrow> x = y
      | (None, None) \<Rightarrow> a = b
      | _ \<Rightarrow> False)"

definition validation_failed :: "string list \<Rightarrow> exn" where
  "validation_failed errors =
     Exn ValueError (''Script validation failed:'' @ newline
                       @ join newline (map (\<lambda>e. ''  - '' @ e) errors))"

definition run_test_file :: "env \<Rightarrow> string \<Rightarrow> state \<Rightarrow> TestResult result" where
  "run_test_file env script_path s =
     (case parse_file env script_path of
        Inl e \<Rightarrow> (Inl e, s)
      | Inr script \<Rightarrow>
          (case validate_script (repr env) script of
             Inl e \<Rightarrow> (Inl e, s)
           | Inr errors \<Rightarrow>
               if errors \<noteq> [] then (Inl (validation_failed errors), s)
               else if \<not> self_browser s \<or> \<not> py_eq (headless script) (self_headless s) then
                 (case (if self_browser s then stop env s else (Inr (), s)) of
                    (Inl e, s1) \<Rightarrow> (Inl e, s1)
                  | (Inr u, s1) \<Rightarrow>
                      (case start env (s1\<lparr>self_headless := headless script\<rparr>) of
                         (Inl e, s2) \<Rightarrow> (Inl e, s2)
                       | (Inr u, s2) \<Rightarrow> execute_script env script s2))
               else execute_script env script s))"

section \<open>Command line (main.py)\<close>

definition failed_result :: "string \<Rightarrow> exn \<Rightarrow> TestResult" where
  "failed_result script_path e = (new_result (YStr script_path))\<lparr>error := Some (exn_str e)\<rparr>"

text \<open>
  The \<^verbatim>\<open>for\<close> loop of \<^verbatim>\<open>run_tests\<close>, with the results list it appends to. An exception
  that \<^verbatim>\<open>except Exception\<close> does not catch leaves the loop.
\<close>

fun run_loop :: "env \<Rightarrow> string list \<Rightarrow> TestResult list \<Rightarrow> state \<Rightarrow> TestResult list result" where
  "run_loop env [] results s = (Inr results, s)"
| "run_loop env (script_path # rest) results s =
     (case run_test_file env script_path s of
        (Inr r, s') \<Rightarrow> run_loop env rest (results @ [r]) s'
      | (Inl e, s') \<Rightarrow>
          if is_Exception e then run_loop env rest (results @ [failed_result script_path e]) s'
          else (Inl e, s'))"

text \<open>
  \<^verbatim>\<open>run_tests\<close>: the engine is created and started on entering the \<^verbatim>\<open>async with\<close>
  block and stopped on leaving it, also when an exception leaves the loop. \<open>tr\<close> and
  \<open>tk\<close> are the browser calls and clock readings made before.
\<close>

definition run_tests ::
  "env \<Rightarrow> string list \<Rightarrow> bool \<Rightarrow> string \<Rightarrow> call list \<Rightarrow> nat \<Rightarrow> int result" where
  "run_tests env script_paths hl browser tr tk =
     (case start env (init_engine hl browser tr tk) of
        (Inl e, s1) \<Rightarrow> (Inl e, s1)
      | (Inr u, s1) \<Rightarrow>
          (case run_loop env script_paths [] s1 of
             (Inl e, s2) \<Rightarrow>
               (case stop env s2 of
                  (Inl e', s3) \<Rightarrow> (Inl e', s3)
                | (Inr u, s3) \<Rightarrow> (Inl e, s3))
           | (Inr results, s2) \<Rightarrow>
               (case stop env s2 of
                  (Inl e', s3) \<Rightarrow> (Inl e', s3)
                | (Inr u, s3) \<Rightarrow>
                    (let passed_n = length (filter passed results);
                         failed = length results - passed_n
                     in (Inr (if failed = 0 then 0 else 1), s3)))))"

record args =
  scripts :: "string list"
  args_headless :: bool
  headed :: bool
  browser :: string
  validate :: bool

text \<open>The loop of the validate mode of \<^verbatim>\<open>main\<close>, with its flag \<^verbatim>\<open>all_valid\<close>.\<close>

fun validate_loop :: "env \<Rightarrow> string list \<Rightarrow> bool \<Rightarrow> exn + bool" where
  "validate_loop env [] all_valid = Inr all_valid"
| "validate_loop env (script_path # rest) all_valid =
     (case parse_file env script_path of
        Inl e \<Rightarrow> if is_Exception e then validate_loop env rest False else Inl e
      | Inr script \<Rightarrow>
          (case validate_script (repr env) script of
             Inl e \<Rightarrow> if is_Exception e then validate_loop env rest False else Inl e
           | Inr errors \<Rightarrow>
               validate_loop env rest (if errors \<noteq> [] then False else all_valid)))"

text \<open>
  How a call of \<^verbatim>\<open>main()\<close> ends: it returns a value (validate mode), leaves through
  \<^verbatim>\<open>sys.exit\<close> (run mode), or an exception leaves it.
\<close>

datatype outcome = Return int | SysExit int | Raise exn

definition main :: "env \<Rightarrow> args \<Rightarrow> call list \<Rightarrow> nat \<Rightarrow> outcome" where
  "main env a tr tk =
     (if validate a then
        (case validate_loop env (scripts a) True of
           Inl e \<Rightarrow> Raise e
         | Inr all_valid \<Rightarrow> Return (if all_valid then 0 else 1))
      else
        (let hl = (if headed a then \<not> headed a else args_headless a) in
         case run_tests env (scripts a) hl (browser a) tr tk of
           (Inr exit_code, s) \<Rightarrow> SysExit exit_code
         | (Inl e, s) \<Rightarrow> if is_Exception e then Raise e else SysExit 130))"

section \<open>Notions used in the statements\<close>

text \<open>
  The state after a list of steps has been dispatched in order, when none of them raised;
  None as soon as one raises.
\<close>

fun steps_succeed :: "env \<Rightarrow> TestStep list \<Rightarrow> state \<Rightarrow> state option" where
  "steps_succeed env [] s = Some s"
| "steps_succeed env (step # rest) s =
     (case dispatch_step env step s of
        (Inr v, s') \<Rightarrow> steps_succeed env rest s'
      | (Inl e, s') \<Rightarrow> None)"

text \<open>The Init phase of \<^verbatim>\<open>execute_script\<close>: the clock is read, the timeout is applied.\<close>

definition apply_timeout :: "env \<Rightarrow> TestScript \<Rightarrow> state \<Rightarrow> yaml result" where
  "apply_timeout env script s =
     engine_page_call env ''set_default_timeout'' [timeout script] [] (snd (now env s))"

text \<open>
  A step is well formed for the validator when its action is a name of the registry and
  every required parameter of that action is among its parameters.
\<close>

definition step_ok :: "TestStep \<Rightarrow> bool" where
  "step_ok step =
     (case action step of
        YStr a \<Rightarrow>
          (case map_of valid_actions a of
             None \<Rightarrow> False
           | Some required \<Rightarrow> list_all (\<lambda>p. p \<in> set (keys (params step))) required)
      | v \<Rightarrow> False)"

definition is_str :: "yaml \<Rightarrow> bool" where
  "is_str v = (case v of YStr s \<Rightarrow> True | _ \<Rightarrow> False)"

fun call_kwargs :: "call \<Rightarrow> (string \<times> yaml) list" where
  "call_kwargs (Call m as kw) = kw"

text \<open>The actions whose function passes \<^verbatim>\<open>**kwargs\<close> on to its last call on the browser.\<close>

definition forwarding_actions :: "string list" where
  "forwarding_actions =
     [''navigate'', ''click'', ''type'', ''wait_for_selector'', ''assert_text'',
      ''assert_visible'', ''upload_file'', ''screenshot'', ''select_option'', ''check'',
      ''uncheck'', ''hover'', ''press'', ''evaluate_js'']"

text \<open>
  The exception with which loading and validating a script file ends, as the first half of
  \<^verbatim>\<open>run_test_file\<close> raises it; None when the script is loaded and valid.
\<close>

definition load_error :: "env \<Rightarrow> string \<Rightarrow> exn option" where
  "load_error env script_path =
     (case parse_file env script_path of
        Inl e \<Rightarrow> Some e
      | Inr script \<Rightarrow>
          (case validate_script (repr env) script of
             Inl e \<Rightarrow> Some e
           | Inr errors \<Rightarrow> if errors \<noteq> [] then Some (validation_failed errors) else None))"

text \<open>
  The run from \<open>s\<close> to \<open>s'\<close> ends with a browser call that has all of \<open>extras\<close>
  among its keyword arguments.
\<close>

definition forwards :: "state \<Rightarrow> state \<Rightarrow> (string \<times> yaml) list \<Rightarrow> bool" where
  "forwards s s' extras \<longleftrightarrow>
     (\<exists>calls c. trace s' = trace s @ calls @ [c] \<and> set extras \<subseteq> set (call_kwargs c))"

text \<open>The browser calls made between two states of a run.\<close>

definition new_calls :: "state \<Rightarrow> state \<Rightarrow> call list" where
  "new_calls s s' = drop (length (trace s)) (trace s')"

text \<open>The browser library raises nothing that \<^verbatim>\<open>except Exception\<close> would let through.\<close>

definition no_interrupts :: "env \<Rightarrow> bool" where
  "no_interrupts env \<longleftrightarrow>
     (\<forall>tr c e. drv env tr c = Inl e \<longrightarrow> is_Exception e) \<and>
     (\<forall>tr c e. drv_count env tr c = Inl e \<longrightarrow> is_Exception e)"

section \<open>Example inputs\<close>

text \<open>
  Concrete scripts, files and a browser for the closed theorems below. In \<open>demo_env\<close>
  every click times out and every screenshot fails; all other browser calls succeed.
\<close>

definition demo_steps :: yaml where
  "demo_steps =
     YList [YDict [(''action'', YStr ''navigate''), (''url'', YStr ''http://x'')],
            YDict [(''action'', YStr ''click''), (''selector'', YStr ''#a'')]]"

definition noname_data :: "(string \<times> yaml) list" where
  "noname_data = [(''steps'', demo_steps)]"

definition emptyname_data :: "(string \<times> yaml) list" where
  "emptyname_data = [(''name'', YStr []), (''steps'', demo_steps)]"

definition demo_data :: "(string \<times> yaml) list" where
  "demo_data = [(''name'', YStr ''t1''), (''steps'', demo_steps)]"

definition nav_data :: "(string \<times> yaml) list" where
  "nav_data =
     [(''name'', YStr ''t1''),
      (''steps'', YList [YDict [(''action'', YStr ''navigate''), (''url'', YStr ''http://x'')]])]"

definition demo_drv :: "call list \<Rightarrow> call \<Rightarrow> exn + yaml" where
  "demo_drv tr c =
     (case c of
        Call m as kw \<Rightarrow>
          if m = ''page.click'' then Inl (Exn DriverError ''Timeout 30000ms exceeded'')
          else if m = ''page.screenshot'' then Inl (Exn DriverError ''Target closed'')
          else Inr YNull)"

definition demo_env :: env where
  "demo_env =
     \<lparr>path_exists = (\<lambda>p. p \<in> {''t1.yaml'', ''noname.yaml'', ''emptyname.yaml'', ''nav.yaml''}),
      safe_load = (\<lambda>p. if p = ''noname.yaml'' then Inr (YDict noname_data)
                        else if p = ''emptyname.yaml'' then Inr (YDict emptyname_data)
                        else if p = ''nav.yaml'' then Inr (YDict nav_data)
                        else Inr (YDict demo_data)),
      expanduser = (\<lambda>p. p),
      absolute = (\<lambda>p. ''/work/'' @ p),
      drv = demo_drv,
      drv_count = (\<lambda>tr c. Inr 1),
      clock = (\<lambda>k. int k * 1000000),
      repr = (\<lambda>v. ''...''),
      object_attr = (\<lambda>a. None)\<rparr>"

definition demo_script :: "yaml \<Rightarrow> TestScript" where
  "demo_script nm =
     \<lparr>name = nm, description = YStr [], base_url = YStr ''http://localhost:5000'',
      headless = YBool True,
      steps = [\<lparr>action = YStr ''navigate'', params = [(''url'', YStr ''http://x'')]\<rparr>,
               \<lparr>action = YStr ''click'', params = [(''selector'', YStr ''#a'')]\<rparr>],
      timeout = YInt 30000, screenshot_on_failure = YBool True\<rparr>"

definition validate_args :: "string list \<Rightarrow> args" where
  "validate_args ps =
     \<lparr>scripts = ps, args_headless = True, headed = False, browser = ''chromium'',
      validate = True\<rparr>"

definition c8_result :: TestResult where
  "c8_result = (new_result (YStr ''t1''))\<lparr>start_time := Some 2000000, end_time := Some 1000000\<rparr>"

definition c8_forward :: TestResult where
  "c8_forward = (new_result (YStr ''t1''))\<lparr>start_time := Some 1000000, end_time := Some 3000000\<rparr>"

definition c4_no_steps :: TestScript where
  "c4_no_steps =
     \<lparr>name = YStr ''t1'', description = YStr [], base_url = YStr ''http://localhost:5000'',
      headless = YBool True, steps = [], timeout = YInt 30000,
      screenshot_on_failure = YBool True\<rparr>"

definition c4_no_name :: TestScript where
  "c4_no_name =
     \<lparr>name = YStr [], description = YStr [], base_url = YStr ''http://localhost:5000'',
      headless = YBool True,
      steps = [\<lparr>action = YStr ''navigate'', params = [(''url'', YStr ''http://x'')]\<rparr>],
      timeout = YInt 30000, screenshot_on_failure = YBool True\<rparr>"

definition c4_script :: TestScript where
  "c4_script = c4_no_name\<lparr>name := YStr ''t1''\<rparr>"

text \<open>
  An engine after \<^verbatim>\<open>start\<close>, the browser calls of the failing example run, and the
  Results of the example runs.
\<close>

definition demo_started :: state where
  "demo_started =
     \<lparr>trace = [], ticks = 0, actions_page = None, self_headless = YBool True,
      self_browser_type = ''chromium'', self_playwright = True, self_browser = True,
      self_context = True, self_page = True, self_actions = True\<rparr>"

definition demo_calls :: "call list" where
  "demo_calls =
     [Call ''page.set_default_timeout'' [YInt 30000] [],
      Call ''page.goto'' [YStr ''http://x''] [],
      Call ''page.click'' [YStr ''#a''] [],
      Call ''page.screenshot'' [] [(''path'', YStr ''failure_t1_2.png'')]]"

definition demo_timeout_exn :: exn where
  "demo_timeout_exn = Exn DriverError ''Timeout 30000ms exceeded''"

definition demo_failed_run :: TestResult where
  "demo_failed_run =
     \<lparr>script_name = YStr ''t1'', passed = False,
      error = Some ''Step 2 failed (click): Timeout 30000ms exceeded'',
      start_time = Some 0, end_time = Some 1000000, steps_executed = 1,
      steps_total = 2, screenshots = []\<rparr>"

definition demo_passed_run :: TestResult where
  "demo_passed_run =
     \<lparr>script_name = YStr ''t1'', passed = True, error = None,
      start_time = Some 0, end_time = Some 1000000, steps_executed = 1,
      steps_total = 1, screenshots = []\<rparr>"

definition demo_unstarted_run :: TestResult where
  "demo_unstarted_run =
     \<lparr>script_name = YStr ''t1'', passed = False,
      error = Some (exn_str (no_attribute ''NoneType'' ''set_default_timeout'')),
      start_time = Some 0, end_time = Some 1000000, steps_executed = 0,
      steps_total = 0, screenshots = []\<rparr>"

definition missing_exn :: exn where
  "missing_exn = Exn FileNotFoundError ''Test script not found: missing.yaml''"

section \<open>The parser and the validator\<close>

lemma from_dict_noname: "from_dict noname_data = Inr (demo_script (YStr ''Unnamed Test''))"
  by (simp add: from_dict_def noname_data_def demo_steps_def dict_get_def dict_del_def keys_def
      demo_script_def)

lemma from_dict_emptyname: "from_dict emptyname_data = Inr (demo_script (YStr []))"
  by (simp add: from_dict_def emptyname_data_def demo_steps_def dict_get_def dict_del_def keys_def
      demo_script_def)

lemma validate_demo_script:
  "validate_script rp (demo_script nm) = Inr (if truthy nm then [] else [''Script must have a name''])"
  by (simp add: validate_script_def demo_script_def valid_actions_def keys_def)

text \<open>Loading and validating raise nothing but ordinary exceptions of their own.\<close>

lemma make_step_exn: "make_step v = Inl e \<Longrightarrow> is_Exception e"
  by (cases v) (auto simp: Let_def split: option.splits if_splits)

lemma make_steps_exn: "make_steps vs = Inl e \<Longrightarrow> is_Exception e"
  by (induction vs arbitrary: e) (auto split: sum.splits dest: make_step_exn)

lemma iter_steps_exn: "iter_steps v = Inl e \<Longrightarrow> is_Exception e"
  by (cases v) auto

lemma from_dict_exn: "from_dict d = Inl e \<Longrightarrow> is_Exception e"
  by (auto simp: from_dict_def split: sum.splits dest: make_steps_exn iter_steps_exn)

lemma parse_file_exn:
  assumes "parse_file env p = Inl e" and "\<forall>q x. safe_load env q = Inl x \<longrightarrow> is_Exception x"
  shows "is_Exception e"
  using assms
  by (auto simp: parse_file_def split: if_splits sum.splits yaml.splits dest: from_dict_exn)

lemma registry_lookup_exn: "registry_lookup v = Inl e \<Longrightarrow> is_Exception e"
  by (cases v) auto

lemma validate_steps_exn: "validate_steps rp i ss errs = Inl e \<Longrightarrow> is_Exception e"
  by (induction ss arbitrary: i errs)
     (auto simp: Let_def split: sum.splits option.splits if_splits dest: registry_lookup_exn)

lemma validate_script_exn: "validate_script rp sc = Inl e \<Longrightarrow> is_Exception e"
  by (auto simp: validate_script_def Let_def dest: validate_steps_exn)

text \<open>The step loop of the validator only ever appends to the list it is given.\<close>

lemma validate_steps_prefix:
  "validate_steps rp i ss errs = Inr out \<Longrightarrow> \<exists>more. out = errs @ more"
proof (induction ss arbitrary: i errs)
  case Nil
  then show ?case by simp
next
  case (Cons st ss)
  then show ?case
    by (fastforce simp: Let_def split: sum.splits option.splits if_splits)
qed

lemma validate_steps_total:
  "\<forall>st\<in>set ss. is_str (action st) \<Longrightarrow> \<exists>out. validate_steps rp i ss errs = Inr out"
  by (induction ss arbitrary: i errs)
     (auto simp: is_str_def Let_def split: yaml.splits option.splits)

lemma validate_steps_ok:
  "list_all step_ok ss \<Longrightarrow> validate_steps rp i ss errs = Inr errs"
  by (induction ss arbitrary: i)
     (auto simp: step_ok_def list_all_iff filter_empty_conv split: yaml.splits option.splits)

lemma from_dict_name:
  "from_dict data = Inr sc \<Longrightarrow> name sc = dict_get data ''name'' (YStr ''Unnamed Test'')"
  by (auto simp: from_dict_def split: sum.splits)

subsection \<open>The validate mode of the command line\<close>

lemma validate_loop_False:
  assumes "\<forall>q x. safe_load env q = Inl x \<longrightarrow> is_Exception x"
  shows "validate_loop env ps False = Inr False"
  using assms
  by (induction ps) (auto split: sum.splits dest: parse_file_exn validate_script_exn)

lemma validate_loop_invalid:
  assumes "\<forall>q x. safe_load env q = Inl x \<longrightarrow> is_Exception x"
    and "p \<in> set ps"
    and "parse_file env p = Inr sc"
    and "validate_script (repr env) sc = Inr errs"
    and "errs \<noteq> []"
  shows "validate_loop env ps b = Inr False"
  using assms
proof (induction ps arbitrary: b)
  case Nil
  then show ?case by simp
next
  case (Cons q ps)
  show ?case
  proof (cases "q = p")
    case True
    with Cons.prems show ?thesis
      by (simp add: validate_loop_False)
  next
    case False
    with Cons.prems have "p \<in> set ps" by simp
    with Cons have ih: "validate_loop env ps b' = Inr False" for b'
      by blast
    from Cons.prems(1) show ?thesis
      by (auto simp: ih validate_loop_False split: sum.splits
          dest: parse_file_exn validate_script_exn)
  qed
qed

text \<open>
  Claim C1, as stated: a validate-only run on a script whose YAML file has no \<^verbatim>\<open>name\<close>
  key ends with exit code 1, and the script's error list contains
  "Script must have a name". It fails: \<^verbatim>\<open>from_dict\<close> gives such a script the name
  "Unnamed Test", so the file \<^verbatim>\<open>noname.yaml\<close>, which has two well-formed steps and no
  name, loads, validates with an empty error list, and \<^verbatim>\<open>main\<close> returns 0.
\<close>

theorem validate_mode_missing_name_counterexample:
  "map_of noname_data ''name'' = None \<and>
   parse_file demo_env ''noname.yaml'' = Inr (demo_script (YStr ''Unnamed Test'')) \<and>
   validate_script (repr demo_env) (demo_script (YStr ''Unnamed Test'')) = Inr [] \<and>
   main demo_env (validate_args [''noname.yaml'']) [] 0 = Return 0"
proof -
  have pf: "parse_file demo_env ''noname.yaml'' = Inr (demo_script (YStr ''Unnamed Test''))"
    by (simp add: parse_file_def demo_env_def from_dict_noname)
  have "main demo_env (validate_args [''noname.yaml'']) [] 0 = Return 0"
    by (simp add: main_def validate_args_def pf validate_demo_script)
  with pf show ?thesis
    by (simp add: validate_demo_script noname_data_def)
qed

text \<open>
  Claim C1, amended: in validate-only mode, when one of the scripts has a \<^verbatim>\<open>name\<close> key
  whose value is empty (falsy: an empty string, null, 0, false, an empty list or
  dictionary), \<^verbatim>\<open>main\<close> returns 1, and the error list of that script contains
  "Script must have a name". The script is one that loads, with strings as the actions of
  its steps, and the YAML library raises nothing but ordinary exceptions on the other
  files.
\<close>

theorem validate_mode_empty_name:
  assumes "validate a" and "p \<in> set (scripts a)"
    and "path_exists env p" and "safe_load env p = Inr (YDict data)"
    and "map_of data ''name'' = Some v" and "\<not> truthy v"
    and "from_dict data = Inr sc" and "\<forall>st\<in>set (steps sc). is_str (action st)"
    and "\<forall>q x. safe_load env q = Inl x \<longrightarrow> is_Exception x"
  shows "main env a tr tk = Return 1 \<and>
         (\<exists>errs. validate_script (repr env) sc = Inr errs \<and> ''Script must have a name'' \<in> set errs)"
proof -
  have nm: "\<not> truthy (name sc)"
    using assms(5,6,7) by (simp add: from_dict_name dict_get_def)
  obtain out where out: "validate_steps (repr env) 1 (steps sc)
      (if steps sc = [] then [''Script must have a name''] @ [''Script must have at least one step'']
       else [''Script must have a name'']) = Inr out"
    using validate_steps_total [OF assms(8)] by blast
  then have errs: "validate_script (repr env) sc = Inr out"
    using nm by (simp add: validate_script_def)
  from validate_steps_prefix [OF out] have mem: "''Script must have a name'' \<in> set out"
    by (auto split: if_splits)
  then have ne: "out \<noteq> []" by auto
  have pf: "parse_file env p = Inr sc"
    using assms(3,4,7) by (simp add: parse_file_def)
  have "validate_loop env (scripts a) True = Inr False"
    by (rule validate_loop_invalid [OF assms(9) assms(2) pf errs ne])
  then have "main env a tr tk = Return 1"
    using assms(1) by (simp add: main_def)
  with errs mem show ?thesis by blast
qed

text \<open>
  Witness for C1 amended: a batch of a valid file and \<^verbatim>\<open>emptyname.yaml\<close>, whose name
  is the empty string.
\<close>

theorem validate_mode_empty_name_witness:
  "main demo_env (validate_args [''t1.yaml'', ''emptyname.yaml'']) [] 0 = Return 1 \<and>
   (\<exists>errs. validate_script (repr demo_env) (demo_script (YStr [])) = Inr errs \<and>
           ''Script must have a name'' \<in> set errs)"
proof -
  have h1: "validate (validate_args [''t1.yaml'', ''emptyname.yaml''])"
    and h2: "''emptyname.yaml'' \<in> set (scripts (validate_args [''t1.yaml'', ''emptyname.yaml'']))"
    by (simp_all add: validate_args_def)
  have h3: "path_exists demo_env ''emptyname.yaml''"
    and h4: "safe_load demo_env ''emptyname.yaml'' = Inr (YDict emptyname_data)"
    and h9: "\<forall>q x. safe_load demo_env q = Inl x \<longrightarrow> is_Exception x"
    by (simp_all add: demo_env_def)
  have h5: "map_of emptyname_data ''name'' = Some (YStr [])" and h6: "\<not> truthy (YStr [])"
    by (simp_all add: emptyname_data_def)
  have h8: "\<forall>st\<in>set (steps (demo_script (YStr []))). is_str (action st)"
    by (simp add: demo_script_def is_str_def)
  show ?thesis
    by (rule validate_mode_empty_name [OF h1 h2 h3 h4 h5 h6 from_dict_emptyname h8 h9])
qed

subsection \<open>Scripts that validate\<close>

text \<open>
  Claim C4, as stated: a script in which every step has a registered action and all of
  that action's required parameters validates with an empty error list. It fails for a
  script without steps and for a script with an empty name: the validator reports each of
  the two, whatever the steps are.
\<close>

theorem validate_well_formed_steps_counterexample:
  "list_all step_ok (steps c4_no_steps) \<and>
   validate_script (\<lambda>v. []) c4_no_steps = Inr [''Script must have at least one step''] \<and>
   list_all step_ok (steps c4_no_name) \<and>
   validate_script (\<lambda>v. []) c4_no_name = Inr [''Script must have a name'']"
  by (simp add: c4_no_steps_def c4_no_name_def validate_script_def step_ok_def valid_actions_def
      keys_def)

text \<open>
  Claim C4, amended: a script with a non-empty name and at least one step, in which every
  step has a registered action and all of that action's required parameters, validates
  with an empty error list.
\<close>

theorem validate_well_formed_script:
  assumes "truthy (name script)" and "steps script \<noteq> []" and "list_all step_ok (steps script)"
  shows "validate_script rp script = Inr []"
  using assms by (simp add: validate_script_def validate_steps_ok)

text \<open>Witness for C4 amended: the script named t1 with one \<^verbatim>\<open>navigate\<close> step.\<close>

theorem validate_well_formed_script_witness:
  "truthy (name c4_script) \<and> steps c4_script \<noteq> [] \<and> list_all step_ok (steps c4_script) \<and>
   validate_script (\<lambda>v. []) c4_script = Inr []"
proof -
  have h1: "truthy (name c4_script)" and h2: "steps c4_script \<noteq> []"
    by (simp_all add: c4_script_def c4_no_name_def)
  have h3: "list_all step_ok (steps c4_script)"
    by (simp add: c4_script_def c4_no_name_def step_ok_def valid_actions_def keys_def)
  from validate_well_formed_script [OF h1 h2 h3] h1 h2 h3 show ?thesis by simp
qed

section \<open>Test results\<close>

text \<open>
  Claim C8, as stated: the duration of every TestResult is at least 0, and is 0.0 when
  \<^verbatim>\<open>start_time\<close> or \<^verbatim>\<open>end_time\<close> is unset. The first half fails for a result whose
  end lies before its start: the property returns the plain difference.
\<close>

theorem duration_nonnegative_counterexample:
  "duration c8_result = - 1 \<and> \<not> 0 \<le> duration c8_result"
  by (simp add: duration_def c8_result_def new_result_def)

text \<open>
  Claim C8, amended: the duration of a TestResult is 0.0 when \<^verbatim>\<open>start_time\<close> or
  \<^verbatim>\<open>end_time\<close> is unset, and it is at least 0 when both are set and the end is not
  earlier than the start.
\<close>

theorem duration_unset_or_ordered:
  "(start_time r = None \<or> end_time r = None \<longrightarrow> duration r = 0) \<and>
   (\<forall>t0 t1. start_time r = Some t0 \<longrightarrow> end_time r = Some t1 \<longrightarrow> t0 \<le> t1 \<longrightarrow> 0 \<le> duration r)"
  by (auto simp: duration_def split: option.splits)

text \<open>
  Witness for C8 amended: a fresh result, with no timestamps, and a result that ends two
  seconds after it starts.
\<close>

theorem duration_unset_or_ordered_witness:
  "duration (new_result (YStr ''t1'')) = 0 \<and> 0 \<le> duration c8_forward"
proof -
  have a: "start_time (new_result (YStr ''t1'')) = None"
    by (simp add: new_result_def)
  have b: "start_time c8_forward = Some 1000000" "end_time c8_forward = Some 3000000"
    by (simp_all add: c8_forward_def new_result_def)
  from duration_unset_or_ordered [of "new_result (YStr ''t1'')"] a
  have "duration (new_result (YStr ''t1'')) = 0" by blast
  moreover from duration_unset_or_ordered [of c8_forward] b
  have "0 \<le> duration c8_forward" by simp
  ultimately show ?thesis by simp
qed

section \<open>Dispatch\<close>

text \<open>Unfolding rules for evaluating the model on concrete inputs.\<close>

lemmas action_defs =
  navigate_def click_def bind_args_def keys_def page_call_def perform_def arg_def dict_get_def
  kwargs_of_def getattr_actions_def methods_def dispatch_step_def execute_action.simps

lemmas engine_defs =
  execute_script_def now_def engine_page_call_def perform_def step_failed_def
  step_error_msg_def script_failed_def replace_spaces_def new_result_def dec_nat.simps
  no_attribute_def quote_def

text \<open>The dispatcher has a function for exactly the names of the validator's registry.\<close>

lemma registry_matches_methods: "map fst methods = map fst valid_actions"
  by (simp add: methods_def valid_actions_def)

lemma execute_action_method:
  "map_of methods a = Some m \<Longrightarrow> execute_action env (YStr a) (YDict ps) s = m env ps s"
  by (simp add: execute_action.simps getattr_actions_def)

text \<open>A name that is no attribute of the object at all ends in the "unknown action" error.\<close>

lemma unknown_attribute:
  "getattr_actions env a s = None \<Longrightarrow>
   execute_action env (YStr a) ps s = (Inl (Exn ValueError (''Unknown action: '' @ a)), s)"
  by (simp add: execute_action.simps)

text \<open>
  Claim C2: for every action name that is not one of the 19 registered actions,
  \<^verbatim>\<open>execute_action\<close> raises the "unknown action" error and invokes no other behaviour.
  The code does not do this for the names of its other attributes. Evaluated here:
  the name \<^verbatim>\<open>execute_action\<close>, which is not in the registry, reaches the dispatcher
  itself, which then dispatches the \<^verbatim>\<open>navigate\<close> found in its parameters, calls
  \<^verbatim>\<open>page.goto\<close> and returns without an error; the name \<^verbatim>\<open>page\<close> ends in a
  TypeError, not in the "unknown action" ValueError.
\<close>

theorem dispatch_reaches_itself:
  "map_of valid_actions ''execute_action'' = None \<and>
   execute_action demo_env (YStr ''execute_action'')
     (YDict [(''action'', YStr ''navigate''), (''params'', YDict [(''url'', YStr ''http://x'')])])
     demo_started =
     (Inr YNull, demo_started\<lparr>trace := [Call ''page.goto'' [YStr ''http://x''] []]\<rparr>) \<and>
   map_of valid_actions ''page'' = None \<and>
   execute_action demo_env (YStr ''page'') (YDict []) demo_started =
     (Inl (Exn TypeError (quote @ ''Page'' @ quote @ '' object is not callable'')), demo_started)"
  by (simp add: valid_actions_def action_defs demo_env_def demo_drv_def demo_started_def)

subsection \<open>Extra parameters\<close>

text \<open>
  Claim C3, as stated: for every registered action, every extra keyword parameter of a
  step is forwarded unchanged to the underlying browser call. It fails for \<^verbatim>\<open>wait\<close>:
  the step \<^verbatim>\<open>wait(ms=100, state='visible')\<close> makes the single call
  \<^verbatim>\<open>page.wait_for_timeout(100)\<close>, without the extra parameter.
\<close>

theorem wait_drops_extras_counterexample:
  "map_of valid_actions ''wait'' = Some [''ms''] \<and>
   execute_action demo_env (YStr ''wait'')
     (YDict [(''ms'', YInt 100), (''state'', YStr ''visible'')]) demo_started =
     (Inr YNull, demo_started\<lparr>trace := [Call ''page.wait_for_timeout'' [YInt 100] []]\<rparr>) \<and>
   (''state'', YStr ''visible'') \<notin> set (call_kwargs (Call ''page.wait_for_timeout'' [YInt 100] []))"
  by (simp add: valid_actions_def action_defs wait_def demo_env_def demo_drv_def demo_started_def)

text \<open>
  The five actions \<^verbatim>\<open>wait\<close>, \<^verbatim>\<open>count_elements\<close>, \<^verbatim>\<open>assert_count\<close>,
  \<^verbatim>\<open>assert_min_count\<close> and \<^verbatim>\<open>get_text\<close> accept extra parameters and pass none of
  them to any browser call they make.
\<close>

lemma wait_discards:
  "\<forall>c\<in>set (new_calls s (snd (wait env ps s))). call_kwargs c = []"
  by (auto simp: new_calls_def wait_def page_call_def perform_def split: option.splits)

lemma get_text_discards:
  "\<forall>c\<in>set (new_calls s (snd (get_text env ps s))). call_kwargs c = []"
  by (auto simp: new_calls_def get_text_def page_call_def perform_def
      split: option.splits prod.splits sum.splits)

lemma locator_count_discards:
  "\<forall>c\<in>set (new_calls s (snd (locator_count env sel s))). call_kwargs c = []"
  by (auto simp: new_calls_def locator_count_def page_call_def perform_def perform_count_def
      split: option.splits prod.splits sum.splits)

lemma count_elements_discards:
  "\<forall>c\<in>set (new_calls s (snd (count_elements env ps s))). call_kwargs c = []"
  using locator_count_discards [of s env "arg ps ''selector''"]
  by (auto simp: new_calls_def count_elements_def split: option.splits prod.splits sum.splits)

lemma assert_count_discards:
  "\<forall>c\<in>set (new_calls s (snd (assert_count env ps s))). call_kwargs c = []"
  using locator_count_discards [of s env "arg ps ''selector''"]
  by (auto simp: new_calls_def assert_count_def split: option.splits prod.splits sum.splits)

lemma assert_min_count_discards:
  "\<forall>c\<in>set (new_calls s (snd (assert_min_count env ps s))). call_kwargs c = []"
  using locator_count_discards [of s env "arg ps ''selector''"]
  by (auto simp: new_calls_def assert_min_count_def split: option.splits prod.splits sum.splits)

lemma extras_discarded:
  assumes "a \<in> {''wait'', ''count_elements'', ''assert_count'', ''assert_min_count'', ''get_text''}"
  shows "\<forall>c\<in>set (new_calls s (snd (execute_action env (YStr a) (YDict ps) s))). call_kwargs c = []"
proof -
  from assms have "a = ''wait'' \<or> a = ''count_elements'' \<or> a = ''assert_count''
      \<or> a = ''assert_min_count'' \<or> a = ''get_text''"
    by simp
  then show ?thesis
  proof (elim disjE)
    assume "a = ''wait''"
    then have "map_of methods a = Some wait" by (simp add: methods_def)
    then show ?thesis by (simp add: execute_action_method wait_discards)
  next
    assume "a = ''count_elements''"
    then have "map_of methods a = Some count_elements" by (simp add: methods_def)
    then show ?thesis by (simp add: execute_action_method count_elements_discards)
  next
    assume "a = ''assert_count''"
    then have "map_of methods a = Some assert_count" by (simp add: methods_def)
    then show ?thesis by (simp add: execute_action_method assert_count_discards)
  next
    assume "a = ''assert_min_count''"
    then have "map_of methods a = Some assert_min_count" by (simp add: methods_def)
    then show ?thesis by (simp add: execute_action_method assert_min_count_discards)
  next
    assume "a = ''get_text''"
    then have "map_of methods a = Some get_text" by (simp add: methods_def)
    then show ?thesis by (simp add: execute_action_method get_text_discards)
  qed
qed

text \<open>The other fourteen actions, one by one.\<close>

lemma kw_scan_ok: "''self'' \<notin> set ks \<Longrightarrow> kw_scan f allowed True ks = None"
  by (induction ks) auto

lemma bind_args_ok:
  "''self'' \<notin> set (keys ps) \<Longrightarrow> \<forall>p\<in>set required. p \<in> set (keys ps) \<Longrightarrow>
   bind_args f required optional True ps = None"
  by (simp add: bind_args_def kw_scan_ok filter_empty_conv)

lemma page_call_trace:
  "actions_page s = None \<Longrightarrow>
   snd (page_call env m as kw s) = s\<lparr>trace := trace s @ [Call (''page.'' @ m) as kw]\<rparr>"
  by (simp add: page_call_def perform_def)

lemma forwards_page_call:
  assumes "actions_page s = None" and "set extras \<subseteq> set kw"
  shows "forwards s (snd (page_call env m as kw s)) extras"
  unfolding forwards_def using assms
  by (intro exI [of _ "[]"] exI [of _ "Call (''page.'' @ m) as kw"]) (simp add: page_call_trace)

lemma forwards_after:
  assumes "trace s1 = trace s @ [c0]" and "forwards s1 s' extras"
  shows "forwards s s' extras"
  using assms unfolding forwards_def by auto

lemma forwards_perform:
  assumes "set extras \<subseteq> set kw"
  shows "forwards s (snd (perform env (Call m as kw) s)) extras"
  unfolding forwards_def using assms
  by (intro exI [of _ "[]"] exI [of _ "Call m as kw"]) (simp add: perform_def)

lemma kwargs_of_mono: "set (kwargs_of required ps) \<subseteq> set (x # kwargs_of required ps)"
  by auto

lemma forward_navigate:
  assumes "''self'' \<notin> set (keys ps)" and "\<forall>p\<in>set [''url'']. p \<in> set (keys ps)"
    and "actions_page s = None"
  shows "forwards s (snd (navigate env ps s)) (kwargs_of [''url''] ps)"
  using assms by (simp add: navigate_def bind_args_ok forwards_page_call)

lemma forward_click:
  assumes "''self'' \<notin> set (keys ps)" and "\<forall>p\<in>set [''selector'']. p \<in> set (keys ps)"
    and "actions_page s = None"
  shows "forwards s (snd (click env ps s)) (kwargs_of [''selector''] ps)"
  using assms by (simp add: click_def bind_args_ok forwards_page_call)

lemma forward_type:
  assumes "''self'' \<notin> set (keys ps)" and "\<forall>p\<in>set [''selector'', ''text'']. p \<in> set (keys ps)"
    and "actions_page s = None"
  shows "forwards s (snd (type_text env ps s)) (kwargs_of [''selector'', ''text''] ps)"
  using assms by (simp add: type_text_def bind_args_ok forwards_page_call)

lemma forward_select_option:
  assumes "''self'' \<notin> set (keys ps)" and "\<forall>p\<in>set [''selector'', ''value'']. p \<in> set (keys ps)"
    and "actions_page s = None"
  shows "forwards s (snd (select_option env ps s)) (kwargs_of [''selector'', ''value''] ps)"
  using assms by (simp add: select_option_def bind_args_ok forwards_page_call)

lemma forward_check:
  assumes "''self'' \<notin> set (keys ps)" and "\<forall>p\<in>set [''selector'']. p \<in> set (keys ps)"
    and "actions_page s = None"
  shows "forwards s (snd (check env ps s)) (kwargs_of [''selector''] ps)"
  using assms by (simp add: check_def bind_args_ok forwards_page_call)

lemma forward_uncheck:
  assumes "''self'' \<notin> set (keys ps)" and "\<forall>p\<in>set [''selector'']. p \<in> set (keys ps)"
    and "actions_page s = None"
  shows "forwards s (snd (uncheck env ps s)) (kwargs_of [''selector''] ps)"
  using assms by (simp add: uncheck_def bind_args_ok forwards_page_call)

lemma forward_hover:
  assumes "''self'' \<notin> set (keys ps)" and "\<forall>p\<in>set [''selector'']. p \<in> set (keys ps)"
    and "actions_page s = None"
  shows "forwards s (snd (hover env ps s)) (kwargs_of [''selector''] ps)"
  using assms by (simp add: hover_def bind_args_ok forwards_page_call)

lemma forward_press:
  assumes "''self'' \<notin> set (keys ps)" and "\<forall>p\<in>set [''selector'', ''key'']. p \<in> set (keys ps)"
    and "actions_page s = None"
  shows "forwards s (snd (press env ps s)) (kwargs_of [''selector'', ''key''] ps)"
  using assms by (simp add: press_def bind_args_ok forwards_page_call)

lemma forward_evaluate_js:
  assumes "''self'' \<notin> set (keys ps)" and "\<forall>p\<in>set [''script'']. p \<in> set (keys ps)"
    and "actions_page s = None"
  shows "forwards s (snd (evaluate_js env ps s)) (kwargs_of [''script''] ps)"
  using assms by (simp add: evaluate_js_def bind_args_ok forwards_page_call)

lemma timeout_kept:
  assumes "distinct (keys ps)"
  shows "set (kwargs_of [''selector''] ps)
         \<subseteq> set ((''timeout'', dict_get ps ''timeout'' (YInt 30000))
                  # kwargs_of [''selector'', ''timeout''] ps)"
proof
  fix kv
  assume kv: "kv \<in> set (kwargs_of [''selector''] ps)"
  show "kv \<in> set ((''timeout'', dict_get ps ''timeout'' (YInt 30000))
                  # kwargs_of [''selector'', ''timeout''] ps)"
  proof (cases "fst kv = ''timeout''")
    case True
    from kv have "(fst kv, snd kv) \<in> set ps" by (simp add: kwargs_of_def)
    with assms have "map_of ps (fst kv) = Some (snd kv)"
      by (simp add: keys_def)
    with True have "kv = (''timeout'', dict_get ps ''timeout'' (YInt 30000))"
      by (simp add: dict_get_def prod_eq_iff)
    then show ?thesis by simp
  next
    case False
    with kv show ?thesis by (simp add: kwargs_of_def)
  qed
qed

lemma forward_wait_for_selector:
  assumes "''self'' \<notin> set (keys ps)" and "\<forall>p\<in>set [''selector'']. p \<in> set (keys ps)"
    and "actions_page s = None" and "distinct (keys ps)"
  shows "forwards s (snd (wait_for_selector env ps s)) (kwargs_of [''selector''] ps)"
  using assms(1-3) timeout_kept [OF assms(4)]
  by (simp add: wait_for_selector_def bind_args_ok forwards_page_call)

lemma forward_upload_file:
  assumes "''self'' \<notin> set (keys ps)" and "\<forall>p\<in>set [''selector'', ''file_path'']. p \<in> set (keys ps)"
    and "actions_page s = None"
    and "arg ps ''file_path'' = YStr f" and "path_exists env (expanduser env f)"
  shows "forwards s (snd (upload_file env ps s)) (kwargs_of [''selector'', ''file_path''] ps)"
  using assms by (simp add: upload_file_def bind_args_ok forwards_page_call)

lemma forward_screenshot:
  assumes "''self'' \<notin> set (keys ps)" and "\<forall>p\<in>set [''filename'']. p \<in> set (keys ps)"
    and "actions_page s = None" and "''path'' \<notin> set (keys ps)"
  shows "forwards s (snd (screenshot env ps s)) (kwargs_of [''filename''] ps)"
proof -
  from assms(4) have "''path'' \<notin> set (keys (kwargs_of [''filename''] ps))"
    by (auto simp: keys_def kwargs_of_def)
  with assms(1-3) show ?thesis
    by (simp add: screenshot_def bind_args_ok forwards_perform [OF kwargs_of_mono])
qed

lemma forward_assert_text:
  assumes "''self'' \<notin> set (keys ps)" and "\<forall>p\<in>set [''selector'', ''expected'']. p \<in> set (keys ps)"
    and "actions_page s = None"
    and "drv env (trace s) (Call ''page.locator'' [arg ps ''selector''] []) = Inr loc"
  shows "forwards s (snd (assert_text env ps s)) (kwargs_of [''selector'', ''expected''] ps)"
proof -
  let ?s1 = "s\<lparr>trace := trace s @ [Call ''page.locator'' [arg ps ''selector''] []]\<rparr>"
  have "forwards ?s1 (snd (perform env (Call ''expect.to_contain_text'' [arg ps ''expected'']
      (kwargs_of [''selector'', ''expected''] ps)) ?s1)) (kwargs_of [''selector'', ''expected''] ps)"
    by (rule forwards_perform) simp
  then have "forwards s (snd (perform env (Call ''expect.to_contain_text'' [arg ps ''expected'']
      (kwargs_of [''selector'', ''expected''] ps)) ?s1)) (kwargs_of [''selector'', ''expected''] ps)"
    by (rule forwards_after [rotated]) simp
  with assms show ?thesis
    by (simp add: assert_text_def bind_args_ok page_call_def perform_def)
qed

lemma forward_assert_visible:
  assumes "''self'' \<notin> set (keys ps)" and "\<forall>p\<in>set [''selector'']. p \<in> set (keys ps)"
    and "actions_page s = None"
    and "drv env (trace s) (Call ''page.locator'' [arg ps ''selector''] []) = Inr loc"
  shows "forwards s (snd (assert_visible env ps s)) (kwargs_of [''selector''] ps)"
proof -
  let ?s1 = "s\<lparr>trace := trace s @ [Call ''page.locator'' [arg ps ''selector''] []]\<rparr>"
  have "forwards ?s1 (snd (perform env (Call ''expect.to_be_visible'' []
      (kwargs_of [''selector''] ps)) ?s1)) (kwargs_of [''selector''] ps)"
    by (rule forwards_perform) simp
  then have "forwards s (snd (perform env (Call ''expect.to_be_visible'' []
      (kwargs_of [''selector''] ps)) ?s1)) (kwargs_of [''selector''] ps)"
    by (rule forwards_after [rotated]) simp
  with assms show ?thesis
    by (simp add: assert_visible_def bind_args_ok page_call_def perform_def)
qed

text \<open>
  Claim C3, amended: for each of the fourteen registered actions other than \<^verbatim>\<open>wait\<close>,
  \<^verbatim>\<open>count_elements\<close>, \<^verbatim>\<open>assert_count\<close>, \<^verbatim>\<open>assert_min_count\<close> and
  \<^verbatim>\<open>get_text\<close>, and every parameter dictionary that holds the action's required
  parameters and no key \<^verbatim>\<open>self\<close>, dispatching the step ends with a browser call whose
  keyword arguments contain every extra parameter unchanged. The call is reached when the
  page of the dispatcher is the one it was created with; for \<^verbatim>\<open>screenshot\<close> no extra
  parameter is named \<^verbatim>\<open>path\<close>, for \<^verbatim>\<open>upload_file\<close> the file exists, and for the two
  \<^verbatim>\<open>expect\<close> assertions the locator can be created.
\<close>

theorem extras_forwarded:
  assumes a: "a \<in> set forwarding_actions"
    and req: "map_of valid_actions a = Some required"
    and given: "\<forall>p\<in>set required. p \<in> set (keys ps)"
    and dict: "distinct (keys ps)" and slf: "''self'' \<notin> set (keys ps)"
    and pg: "actions_page s = None"
    and shot: "a = ''screenshot'' \<longrightarrow> ''path'' \<notin> set (keys ps)"
    and upl: "a = ''upload_file'' \<longrightarrow>
                (\<exists>f. arg ps ''file_path'' = YStr f \<and> path_exists env (expanduser env f))"
    and lc: "a = ''assert_text'' \<or> a = ''assert_visible'' \<longrightarrow>
                (\<exists>l. drv env (trace s) (Call ''page.locator'' [arg ps ''selector''] []) = Inr l)"
  shows "\<exists>calls c. trace (snd (execute_action env (YStr a) (YDict ps) s)) = trace s @ calls @ [c] \<and>
           (\<forall>kv\<in>set ps. fst kv \<notin> set required \<longrightarrow> kv \<in> set (call_kwargs c))"
proof -
  have "forwards s (snd (execute_action env (YStr a) (YDict ps) s)) (kwargs_of required ps)"
  proof -
    from a have "a = ''navigate'' \<or> a = ''click'' \<or> a = ''type''
      \<or> a = ''wait_for_selector'' \<or> a = ''assert_text'' \<or> a = ''assert_visible''
      \<or> a = ''upload_file'' \<or> a = ''screenshot'' \<or> a = ''select_option'' \<or> a = ''check''
      \<or> a = ''uncheck'' \<or> a = ''hover'' \<or> a = ''press'' \<or> a = ''evaluate_js''"
      by (simp add: forwarding_actions_def)
    then show ?thesis
    proof (elim disjE)
      assume 1: "a = ''navigate''"
      with req have r: "required = [''url'']" by (simp add: valid_actions_def)
      from 1 have "map_of methods a = Some navigate" by (simp add: methods_def)
      then show ?thesis
        using forward_navigate [OF slf given [unfolded r] pg] by (simp add: execute_action_method r)
    next
      assume 2: "a = ''click''"
      with req have r: "required = [''selector'']" by (simp add: valid_actions_def)
      from 2 have "map_of methods a = Some click" by (simp add: methods_def)
      then show ?thesis
        using forward_click [OF slf given [unfolded r] pg] by (simp add: execute_action_method r)
    next
      assume 3: "a = ''type''"
      with req have r: "required = [''selector'', ''text'']" by (simp add: valid_actions_def)
      from 3 have "map_of methods a = Some type_text" by (simp add: methods_def)
      then show ?thesis
        using forward_type [OF slf given [unfolded r] pg] by (simp add: execute_action_method r)
    next
      assume 4: "a = ''wait_for_selector''"
      with req have r: "required = [''selector'']" by (simp add: valid_actions_def)
      from 4 have "map_of methods a = Some wait_for_selector" by (simp add: methods_def)
      then show ?thesis
        using forward_wait_for_selector [OF slf given [unfolded r] pg dict]
        by (simp add: execute_action_method r)
    next
      assume 5: "a = ''assert_text''"
      with req have r: "required = [''selector'', ''expected'']" by (simp add: valid_actions_def)
      from 5 have m: "map_of methods a = Some assert_text" by (simp add: methods_def)
      from 5 lc obtain l where "drv env (trace s) (Call ''page.locator'' [arg ps ''selector''] []) = Inr l"
        by auto
      from forward_assert_text [OF slf given [unfolded r] pg this] m show ?thesis
        by (simp add: execute_action_method r)
    next
      assume 6: "a = ''assert_visible''"
      with req have r: "required = [''selector'']" by (simp add: valid_actions_def)
      from 6 have m: "map_of methods a = Some assert_visible" by (simp add: methods_def)
      from 6 lc obtain l where "drv env (trace s) (Call ''page.locator'' [arg ps ''selector''] []) = Inr l"
        by auto
      from forward_assert_visible [OF slf given [unfolded r] pg this] m show ?thesis
        by (simp add: execute_action_method r)
    next
      assume 7: "a = ''upload_file''"
      with req have r: "required = [''selector'', ''file_path'']" by (simp add: valid_actions_def)
      from 7 have m: "map_of methods a = Some upload_file" by (simp add: methods_def)
      from 7 upl obtain f where "arg ps ''file_path'' = YStr f" "path_exists env (expanduser env f)"
        by auto
      from forward_upload_file [OF slf given [unfolded r] pg this] m show ?thesis
        by (simp add: execute_action_method r)
    next
      assume 8: "a = ''screenshot''"
      with req have r: "required = [''filename'']" by (simp add: valid_actions_def)
      from 8 have m: "map_of methods a = Some screenshot" by (simp add: methods_def)
      from 8 shot have "''path'' \<notin> set (keys ps)" by simp
      from forward_screenshot [OF slf given [unfolded r] pg this] m show ?thesis
        by (simp add: execute_action_method r)
    next
      assume 9: "a = ''select_option''"
      with req have r: "required = [''selector'', ''value'']" by (simp add: valid_actions_def)
      from 9 have "map_of methods a = Some select_option" by (simp add: methods_def)
      then show ?thesis
        using forward_select_option [OF slf given [unfolded r] pg]
        by (simp add: execute_action_method r)
    next
      assume 10: "a = ''check''"
      with req have r: "required = [''selector'']" by (simp add: valid_actions_def)
      from 10 have "map_of methods a = Some check" by (simp add: methods_def)
      then show ?thesis
        using forward_check [OF slf given [unfolded r] pg] by (simp add: execute_action_method r)
    next
      assume 11: "a = ''uncheck''"
      with req have r: "required = [''selector'']" by (simp add: valid_actions_def)
      from 11 have "map_of methods a = Some uncheck" by (simp add: methods_def)
      then show ?thesis
        using forward_uncheck [OF slf given [unfolded r] pg] by (simp add: execute_action_method r)
    next
      assume 12: "a = ''hover''"
      with req have r: "required = [''selector'']" by (simp add: valid_actions_def)
      from 12 have "map_of methods a = Some hover" by (simp add: methods_def)
      then show ?thesis
        using forward_hover [OF slf given [unfolded r] pg] by (simp add: execute_action_method r)
    next
      assume 13: "a = ''press''"
      with req have r: "required = [''selector'', ''key'']" by (simp add: valid_actions_def)
      from 13 have "map_of methods a = Some press" by (simp add: methods_def)
      then show ?thesis
        using forward_press [OF slf given [unfolded r] pg] by (simp add: execute_action_method r)
    next
      assume 14: "a = ''evaluate_js''"
      with req have r: "required = [''script'']" by (simp add: valid_actions_def)
      from 14 have "map_of methods a = Some evaluate_js" by (simp add: methods_def)
      then show ?thesis
        using forward_evaluate_js [OF slf given [unfolded r] pg]
        by (simp add: execute_action_method r)
    qed
  qed
  then show ?thesis
    unfolding forwards_def by (auto simp: kwargs_of_def)
qed

text \<open>
  Witness for C3 amended: a \<^verbatim>\<open>hover\<close>, a \<^verbatim>\<open>screenshot\<close>, an \<^verbatim>\<open>upload_file\<close> and an
  \<^verbatim>\<open>assert_text\<close> step, each with one extra parameter.
\<close>

theorem extras_forwarded_witness:
  "(\<exists>calls c. trace (snd (execute_action demo_env (YStr ''hover'')
        (YDict [(''selector'', YStr ''#a''), (''force'', YBool True)]) demo_started))
      = trace demo_started @ calls @ [c] \<and> (''force'', YBool True) \<in> set (call_kwargs c)) \<and>
   (\<exists>calls c. trace (snd (execute_action demo_env (YStr ''screenshot'')
        (YDict [(''filename'', YStr ''a.png''), (''full_page'', YBool True)]) demo_started))
      = trace demo_started @ calls @ [c] \<and> (''full_page'', YBool True) \<in> set (call_kwargs c)) \<and>
   (\<exists>calls c. trace (snd (execute_action demo_env (YStr ''upload_file'')
        (YDict [(''selector'', YStr ''#f''), (''file_path'', YStr ''t1.yaml''),
                (''timeout'', YInt 5)]) demo_started))
      = trace demo_started @ calls @ [c] \<and> (''timeout'', YInt 5) \<in> set (call_kwargs c)) \<and>
   (\<exists>calls c. trace (snd (execute_action demo_env (YStr ''assert_text'')
        (YDict [(''selector'', YStr ''#b''), (''expected'', YStr ''hi''),
                (''timeout'', YInt 5)]) demo_started))
      = trace demo_started @ calls @ [c] \<and> (''timeout'', YInt 5) \<in> set (call_kwargs c))"
proof -
  have pg: "actions_page demo_started = None"
    by (simp add: demo_started_def)
  have 1: "\<exists>calls c. trace (snd (execute_action demo_env (YStr ''hover'')
        (YDict [(''selector'', YStr ''#a''), (''force'', YBool True)]) demo_started))
      = trace demo_started @ calls @ [c] \<and> (''force'', YBool True) \<in> set (call_kwargs c)"
    using extras_forwarded [of "''hover''" "[''selector'']"
        "[(''selector'', YStr ''#a''), (''force'', YBool True)]" demo_started demo_env] pg
    by (simp add: forwarding_actions_def valid_actions_def keys_def)
  have 2: "\<exists>calls c. trace (snd (execute_action demo_env (YStr ''screenshot'')
        (YDict [(''filename'', YStr ''a.png''), (''full_page'', YBool True)]) demo_started))
      = trace demo_started @ calls @ [c] \<and> (''full_page'', YBool True) \<in> set (call_kwargs c)"
    using extras_forwarded [of "''screenshot''" "[''filename'']"
        "[(''filename'', YStr ''a.png''), (''full_page'', YBool True)]" demo_started demo_env] pg
    by (simp add: forwarding_actions_def valid_actions_def keys_def)
  have f: "arg [(''selector'', YStr ''#f''), (''file_path'', YStr ''t1.yaml''), (''timeout'', YInt 5)]
      ''file_path'' = YStr ''t1.yaml'' \<and> path_exists demo_env (expanduser demo_env ''t1.yaml'')"
    by (simp add: arg_def dict_get_def demo_env_def)
  have 3: "\<exists>calls c. trace (snd (execute_action demo_env (YStr ''upload_file'')
        (YDict [(''selector'', YStr ''#f''), (''file_path'', YStr ''t1.yaml''),
                (''timeout'', YInt 5)]) demo_started))
      = trace demo_started @ calls @ [c] \<and> (''timeout'', YInt 5) \<in> set (call_kwargs c)"
    using extras_forwarded [of "''upload_file''" "[''selector'', ''file_path'']"
        "[(''selector'', YStr ''#f''), (''file_path'', YStr ''t1.yaml''), (''timeout'', YInt 5)]"
        demo_started demo_env] pg f
    by (simp add: forwarding_actions_def valid_actions_def keys_def)
  have l: "drv demo_env (trace demo_started) (Call ''page.locator''
      [arg [(''selector'', YStr ''#b''), (''expected'', YStr ''hi''), (''timeout'', YInt 5)]
         ''selector''] []) = Inr YNull"
    by (simp add: demo_env_def demo_drv_def)
  have 4: "\<exists>calls c. trace (snd (execute_action demo_env (YStr ''assert_text'')
        (YDict [(''selector'', YStr ''#b''), (''expected'', YStr ''hi''),
                (''timeout'', YInt 5)]) demo_started))
      = trace demo_started @ calls @ [c] \<and> (''timeout'', YInt 5) \<in> set (call_kwargs c)"
    using extras_forwarded [of "''assert_text''" "[''selector'', ''expected'']"
        "[(''selector'', YStr ''#b''), (''expected'', YStr ''hi''), (''timeout'', YInt 5)]"
        demo_started demo_env] pg l
    by (simp add: forwarding_actions_def valid_actions_def keys_def)
  from 1 2 3 4 show ?thesis by (intro conjI)
qed

subsection \<open>What a step can raise\<close>

text \<open>
  When the browser library raises ordinary exceptions only, so does every dispatched step:
  the dispatcher's own errors are all ordinary exceptions.
\<close>

lemma kw_scan_exn: "kw_scan f allowed v ks = Some e \<Longrightarrow> is_Exception e"
  by (induction ks) (auto split: if_splits)

lemma bind_args_exn: "bind_args f r opt v ps = Some e \<Longrightarrow> is_Exception e"
  by (auto simp: bind_args_def Let_def split: option.splits if_splits dest: kw_scan_exn)

lemma perform_exn: "no_interrupts env \<Longrightarrow> perform env c s = (Inl e, s') \<Longrightarrow> is_Exception e"
  by (auto simp: perform_def no_interrupts_def)

lemma perform_count_exn:
  "no_interrupts env \<Longrightarrow> perform_count env c s = (Inl e, s') \<Longrightarrow> is_Exception e"
  by (auto simp: perform_count_def no_interrupts_def)

lemma page_call_exn:
  "no_interrupts env \<Longrightarrow> page_call env m as kw s = (Inl e, s') \<Longrightarrow> is_Exception e"
  by (auto simp: page_call_def no_attribute_def split: option.splits dest: perform_exn)

lemma locator_count_exn:
  "no_interrupts env \<Longrightarrow> locator_count env sel s = (Inl e, s') \<Longrightarrow> is_Exception e"
  by (auto simp: locator_count_def split: prod.splits sum.splits
      dest: page_call_exn perform_count_exn)

lemmas exn_dests = bind_args_exn perform_exn page_call_exn locator_count_exn

lemma navigate_exn: "no_interrupts env \<Longrightarrow> navigate env ps s = (Inl e, s') \<Longrightarrow> is_Exception e"
  by (auto simp: navigate_def split: option.splits dest: exn_dests)

lemma click_exn: "no_interrupts env \<Longrightarrow> click env ps s = (Inl e, s') \<Longrightarrow> is_Exception e"
  by (auto simp: click_def split: option.splits dest: exn_dests)

lemma type_text_exn: "no_interrupts env \<Longrightarrow> type_text env ps s = (Inl e, s') \<Longrightarrow> is_Exception e"
  by (auto simp: type_text_def split: option.splits dest: exn_dests)

lemma wait_for_selector_exn:
  "no_interrupts env \<Longrightarrow> wait_for_selector env ps s = (Inl e, s') \<Longrightarrow> is_Exception e"
  by (auto simp: wait_for_selector_def split: option.splits dest: exn_dests)

lemma assert_text_exn:
  "no_interrupts env \<Longrightarrow> assert_text env ps s = (Inl e, s') \<Longrightarrow> is_Exception e"
  by (auto simp: assert_text_def split: option.splits prod.splits sum.splits dest: exn_dests)

lemma assert_visible_exn:
  "no_interrupts env \<Longrightarrow> assert_visible env ps s = (Inl e, s') \<Longrightarrow> is_Exception e"
  by (auto simp: assert_visible_def split: option.splits prod.splits sum.splits dest: exn_dests)

lemma upload_file_exn:
  "no_interrupts env \<Longrightarrow> upload_file env ps s = (Inl e, s') \<Longrightarrow> is_Exception e"
  by (auto simp: upload_file_def split: option.splits yaml.splits if_splits dest: exn_dests)

lemma screenshot_exn:
  "no_interrupts env \<Longrightarrow> screenshot env ps s = (Inl e, s') \<Longrightarrow> is_Exception e"
  by (auto simp: screenshot_def no_attribute_def split: option.splits if_splits dest: exn_dests)

lemma wait_exn: "no_interrupts env \<Longrightarrow> wait env ps s = (Inl e, s') \<Longrightarrow> is_Exception e"
  by (auto simp: wait_def split: option.splits dest: exn_dests)

lemma select_option_exn:
  "no_interrupts env \<Longrightarrow> select_option env ps s = (Inl e, s') \<Longrightarrow> is_Exception e"
  by (auto simp: select_option_def split: option.splits dest: exn_dests)

lemma check_exn: "no_interrupts env \<Longrightarrow> check env ps s = (Inl e, s') \<Longrightarrow> is_Exception e"
  by (auto simp: check_def split: option.splits dest: exn_dests)

lemma uncheck_exn: "no_interrupts env \<Longrightarrow> uncheck env ps s = (Inl e, s') \<Longrightarrow> is_Exception e"
  by (auto simp: uncheck_def split: option.splits dest: exn_dests)

lemma hover_exn: "no_interrupts env \<Longrightarrow> hover env ps s = (Inl e, s') \<Longrightarrow> is_Exception e"
  by (auto simp: hover_def split: option.splits dest: exn_dests)

lemma press_exn: "no_interrupts env \<Longrightarrow> press env ps s = (Inl e, s') \<Longrightarrow> is_Exception e"
  by (auto simp: press_def split: option.splits dest: exn_dests)

lemma evaluate_js_exn:
  "no_interrupts env \<Longrightarrow> evaluate_js env ps s = (Inl e, s') \<Longrightarrow> is_Exception e"
  by (auto simp: evaluate_js_def split: option.splits dest: exn_dests)

lemma count_elements_exn:
  "no_interrupts env \<Longrightarrow> count_elements env ps s = (Inl e, s') \<Longrightarrow> is_Exception e"
  by (auto simp: count_elements_def split: option.splits prod.splits sum.splits if_splits
      dest: exn_dests)

lemma assert_count_exn:
  "no_interrupts env \<Longrightarrow> assert_count env ps s = (Inl e, s') \<Longrightarrow> is_Exception e"
  by (auto simp: assert_count_def split: option.splits prod.splits sum.splits if_splits
      dest: exn_dests)

lemma assert_min_count_exn:
  "no_interrupts env \<Longrightarrow> assert_min_count env ps s = (Inl e, s') \<Longrightarrow> is_Exception e"
  by (auto simp: assert_min_count_def split: option.splits prod.splits sum.splits if_splits
      dest: exn_dests)

lemma get_text_exn:
  "no_interrupts env \<Longrightarrow> get_text env ps s = (Inl e, s') \<Longrightarrow> is_Exception e"
  by (auto simp: get_text_def split: option.splits prod.splits sum.splits dest: exn_dests)

lemma method_exn:
  assumes "map_of methods a = Some m" and "no_interrupts env" and "m env ps s = (Inl e, s')"
  shows "is_Exception e"
proof -
  from assms(1) have "(a, m) \<in> set methods" by (rule map_of_SomeD)
  then have "m \<in> snd ` set methods" by force
  then have "m = navigate \<or> m = click \<or> m = type_text \<or> m = wait_for_selector
      \<or> m = assert_text \<or> m = assert_visible \<or> m = upload_file \<or> m = screenshot \<or> m = wait
      \<or> m = select_option \<or> m = check \<or> m = uncheck \<or> m = hover \<or> m = press \<or> m = evaluate_js
      \<or> m = count_elements \<or> m = assert_count \<or> m = assert_min_count \<or> m = get_text"
    by (simp add: methods_def)
  with assms(2,3) show ?thesis
    by (elim disjE)
       (simp_all add: navigate_exn click_exn type_text_exn wait_for_selector_exn assert_text_exn
          assert_visible_exn upload_file_exn screenshot_exn wait_exn select_option_exn check_exn
          uncheck_exn hover_exn press_exn evaluate_js_exn count_elements_exn assert_count_exn
          assert_min_count_exn get_text_exn)
qed

lemma getattr_method:
  "getattr_actions env a s = Some (Method m) \<Longrightarrow> map_of methods a = Some m"
  by (auto simp: getattr_actions_def split: option.splits if_splits yaml.splits)

lemma execute_action_exn:
  "no_interrupts env \<Longrightarrow> execute_action env act ps s = (Inl e, s') \<Longrightarrow> is_Exception e"
proof (induction env act ps s rule: execute_action.induct)
  case (1 env act ps s)
  from "1.prems" show ?case
    apply (subst (asm) execute_action.simps)
    apply (auto simp: not_mapping_def split: yaml.splits option.splits attr.splits
        dest: method_exn [OF getattr_method] bind_args_exn "1.IH")
    done
qed

lemma dispatch_step_exn:
  "no_interrupts env \<Longrightarrow> dispatch_step env step s = (Inl e, s') \<Longrightarrow> is_Exception e"
  by (auto simp: dispatch_step_def no_attribute_def split: if_splits dest: execute_action_exn)

section \<open>Executing a script\<close>

text \<open>The step loop, when every step succeeds and when step \<open>k\<close> is the first to raise.\<close>

lemma run_steps_success:
  "steps_succeed env ss s = Some sn \<Longrightarrow>
   run_steps env script i ss result s =
     ((None, result\<lparr>steps_executed := steps_executed result + length ss\<rparr>), sn)"
  by (induction ss arbitrary: i result s) (auto split: prod.splits sum.splits)

lemma run_steps_completed:
  "run_steps env script i ss result s = ((None, result'), s') \<Longrightarrow> steps_succeed env ss s = Some s'"
  by (induction ss arbitrary: i result s) (auto split: prod.splits sum.splits if_splits)

lemma run_steps_failure:
  assumes "k < length ss" and "steps_succeed env (take k ss) s = Some sk"
    and "dispatch_step env (ss ! k) sk = (Inl e, sk')"
  shows "run_steps env script i ss result s =
     (if is_Exception e
      then (case step_failed env script (i + k) (ss ! k) e
                   (result\<lparr>steps_executed := steps_executed result + k\<rparr>) sk' of
              ((e', result'), s'') \<Rightarrow> ((Some e', result'), s''))
      else ((Some e, result\<lparr>steps_executed := steps_executed result + k\<rparr>), sk'))"
  using assms
proof (induction ss arbitrary: k i result s)
  case Nil
  then show ?case by simp
next
  case (Cons st ss)
  show ?case
  proof (cases k)
    case 0
    with Cons.prems show ?thesis by simp
  next
    case (Suc j)
    with Cons.prems obtain v s1 where d: "dispatch_step env st s = (Inr v, s1)"
      and rest: "steps_succeed env (take j ss) s1 = Some sk"
      by (auto split: prod.splits sum.splits)
    from Cons.prems Suc have j: "j < length ss" and f: "dispatch_step env (ss ! j) sk = (Inl e, sk')"
      by simp_all
    from Cons.IH [OF j rest f, of "Suc i" "result\<lparr>steps_executed := steps_executed result + 1\<rparr>"]
    show ?thesis
      using d Suc by simp
  qed
qed

lemma step_failed_fields:
  assumes "step_failed env script i step e result s = ((e', result'), s')"
  shows "error result' = Some (step_error_msg env i step e)"
    and "steps_executed result' = steps_executed result"
    and "passed result' = passed result"
  using assms
  by (auto simp: step_failed_def Let_def split: if_splits yaml.splits prod.splits sum.splits)

lemma step_error_msg_nonempty: "step_error_msg env i step e \<noteq> []"
  by (simp add: step_error_msg_def)

lemma script_failed_fields:
  assumes "script_failed env e result s = (Inr r, s')"
  shows "\<not> passed r"
    and "steps_executed r = steps_executed result"
    and "error r = (if error result = None \<or> error result = Some [] then Some (exn_str e) else error result)"
    and "is_Exception e"
  using assms
  by (auto simp: script_failed_def Let_def split: if_splits prod.splits)

lemma execute_script_unfold:
  "execute_script env script s =
     (let result = (new_result (name script))
             \<lparr>start_time := Some (fst (now env s)), steps_total := length (steps script)\<rparr> in
      case apply_timeout env script s of
        (Inl e, s1) \<Rightarrow> script_failed env e result s1
      | (Inr u, s1) \<Rightarrow>
          (case run_steps env script 1 (steps script) result s1 of
             ((Some e, result'), s2) \<Rightarrow> script_failed env e result' s2
           | ((None, result'), s2) \<Rightarrow>
               (Inr (result'\<lparr>passed := True, end_time := Some (fst (now env s2))\<rparr>), snd (now env s2))))"
  by (cases "now env s")
     (auto simp: execute_script_def apply_timeout_def Let_def
        split: prod.splits sum.splits option.splits)

text \<open>
  \<^verbatim>\<open>execute_script\<close> always ends: with a Result, or with an interrupt that passes through
  both handlers. With a browser library that raises ordinary exceptions only it returns a
  Result.
\<close>

lemma execute_script_interrupt:
  "execute_script env script s = (Inl e, s') \<Longrightarrow> \<not> is_Exception e"
  by (auto simp: execute_script_unfold Let_def script_failed_def
      split: prod.splits sum.splits option.splits if_splits)

lemma step_failed_exn:
  assumes "no_interrupts env" and "is_Exception e"
    and "step_failed env script i step e result s = ((e', result'), s')"
  shows "is_Exception e'"
  using assms
  by (auto simp: step_failed_def Let_def engine_page_call_def no_attribute_def
      split: if_splits yaml.splits prod.splits sum.splits dest: perform_exn)

lemma run_steps_exn:
  "no_interrupts env \<Longrightarrow> run_steps env script i ss result s = ((Some e, result'), s') \<Longrightarrow>
   is_Exception e"
proof (induction ss arbitrary: i result s)
  case Nil
  then show ?case by simp
next
  case (Cons st ss)
  then show ?case
    by (auto split: prod.splits sum.splits if_splits dest: dispatch_step_exn step_failed_exn)
qed

lemma execute_script_returns:
  assumes "no_interrupts env"
  shows "\<exists>r s'. execute_script env script s = (Inr r, s')"
proof (cases "execute_script env script s")
  case (Pair x s')
  show ?thesis
  proof (cases x)
    case (Inl e)
    with Pair have "\<not> is_Exception e"
      by (auto dest: execute_script_interrupt)
    moreover from Pair Inl assms have "is_Exception e"
      by (auto simp: execute_script_unfold Let_def script_failed_def apply_timeout_def
          engine_page_call_def no_attribute_def
          split: prod.splits sum.splits option.splits if_splits
          dest: perform_exn run_steps_exn)
    ultimately show ?thesis by simp
  next
    case (Inr r)
    with Pair show ?thesis by simp
  qed
qed

lemma execute_script_step_failure:
  assumes ret: "execute_script env script s = (Inr r, s')"
    and init: "apply_timeout env script s = (Inr u, s1)"
    and k: "k < length (steps script)"
    and pre: "steps_succeed env (take k (steps script)) s1 = Some sk"
    and fail: "dispatch_step env (steps script ! k) sk = (Inl e, sk')"
  shows "steps_executed r = k"
    and "error r = Some (step_error_msg env (Suc k) (steps script ! k) e)"
    and "\<not> passed r"
proof -
  let ?r0 = "(new_result (name script))
      \<lparr>start_time := Some (fst (now env s)), steps_total := length (steps script)\<rparr>"
  note rs = run_steps_failure [OF k pre fail, of script 1 ?r0]
  have exn: "is_Exception e"
  proof (rule ccontr)
    assume "\<not> is_Exception e"
    with rs ret init show False
      by (simp add: execute_script_unfold Let_def script_failed_def split: prod.splits)
  qed
  obtain e' r' s2 where sf: "step_failed env script (1 + k) (steps script ! k) e
      (?r0\<lparr>steps_executed := steps_executed ?r0 + k\<rparr>) sk' = ((e', r'), s2)"
    by (metis prod.exhaust)
  with rs exn have run: "run_steps env script 1 (steps script) ?r0 s1 = ((Some e', r'), s2)"
    by simp
  with ret init have fin: "script_failed env e' r' s2 = (Inr r, s')"
    by (simp add: execute_script_unfold Let_def)
  note f = step_failed_fields [OF sf] and g = script_failed_fields [OF fin]
  from g(2) f(2) show "steps_executed r = k"
    by (simp add: new_result_def)
  from g(3) f(1) show "error r = Some (step_error_msg env (Suc k) (steps script ! k) e)"
    by (simp add: step_error_msg_nonempty)
  from g(1) show "\<not> passed r" .
qed

subsection \<open>Three runs in the example environment\<close>

lemma demo_apply_timeout:
  "apply_timeout demo_env (demo_script nm) demo_started =
     (Inr YNull, demo_started\<lparr>trace := take 1 demo_calls, ticks := 1\<rparr>)"
  by (simp add: apply_timeout_def engine_defs demo_env_def demo_drv_def demo_script_def
      demo_started_def demo_calls_def)

lemma demo_navigate:
  "dispatch_step demo_env (steps (demo_script nm) ! 0)
     (demo_started\<lparr>trace := take 1 demo_calls, ticks := 1\<rparr>) =
     (Inr YNull, demo_started\<lparr>trace := take 2 demo_calls, ticks := 1\<rparr>)"
  by (simp add: action_defs demo_env_def demo_drv_def demo_script_def demo_started_def
      demo_calls_def)

lemma demo_click:
  "dispatch_step demo_env (steps (demo_script nm) ! 1)
     (demo_started\<lparr>trace := take 2 demo_calls, ticks := 1\<rparr>) =
     (Inl demo_timeout_exn, demo_started\<lparr>trace := take 3 demo_calls, ticks := 1\<rparr>)"
  by (simp add: action_defs demo_env_def demo_drv_def demo_script_def demo_started_def
      demo_calls_def demo_timeout_exn_def)

lemma demo_prefix:
  "steps_succeed demo_env (take 1 (steps (demo_script nm)))
     (demo_started\<lparr>trace := take 1 demo_calls, ticks := 1\<rparr>) =
     Some (demo_started\<lparr>trace := take 2 demo_calls, ticks := 1\<rparr>)"
  using demo_navigate [of nm] by (simp add: demo_script_def)

lemma demo_run:
  "execute_script demo_env (demo_script (YStr ''t1'')) demo_started =
     (Inr demo_failed_run, demo_started\<lparr>trace := demo_calls, ticks := 2\<rparr>)"
  by (simp add: engine_defs action_defs demo_env_def demo_drv_def demo_script_def
      demo_started_def demo_calls_def demo_failed_run_def)

lemma demo_pass:
  "execute_script demo_env c4_script demo_started =
     (Inr demo_passed_run, demo_started\<lparr>trace := take 2 demo_calls, ticks := 2\<rparr>)"
  by (simp add: engine_defs action_defs demo_env_def demo_drv_def c4_script_def c4_no_name_def
      demo_started_def demo_calls_def demo_passed_run_def)

lemma demo_unstarted:
  "execute_script demo_env c4_no_steps (init_engine True ''chromium'' [] 0) =
     (Inr demo_unstarted_run, (init_engine True ''chromium'' [] 0)\<lparr>ticks := 2\<rparr>)"
  by (simp add: engine_defs demo_env_def c4_no_steps_def init_engine_def demo_unstarted_run_def)

text \<open>
  A run ends in the normal return after the loop, or in the outer handler with an ordinary
  exception, when the browser library raises ordinary exceptions only.
\<close>

lemma execute_script_outcome:
  assumes "no_interrupts env"
  shows "(\<exists>r s'. execute_script env script s = (Inr r, s')) \<or>
         (\<exists>e result s2. is_Exception e \<and>
            execute_script env script s = script_failed env e result s2)"
proof (cases "apply_timeout env script s")
  case (Pair x s1)
  let ?r0 = "(new_result (name script))
      \<lparr>start_time := Some (fst (now env s)), steps_total := length (steps script)\<rparr>"
  show ?thesis
  proof (cases x)
    case (Inl e)
    with Pair assms have "is_Exception e"
      by (auto simp: apply_timeout_def engine_page_call_def no_attribute_def
          split: if_splits dest: perform_exn)
    moreover from Pair Inl have "execute_script env script s = script_failed env e ?r0 s1"
      by (simp add: execute_script_unfold Let_def)
    ultimately show ?thesis by blast
  next
    case (Inr u)
    obtain exo result' s2 where rs:
      "run_steps env script 1 (steps script) ?r0 s1 = ((exo, result'), s2)"
      by (metis prod.exhaust)
    show ?thesis
    proof (cases exo)
      case None
      with rs Pair Inr show ?thesis
        by (simp add: execute_script_unfold Let_def)
    next
      case (Some e)
      with rs assms have "is_Exception e"
        by (auto dest: run_steps_exn)
      moreover from Some rs Pair Inr
      have "execute_script env script s = script_failed env e result' s2"
        by (simp add: execute_script_unfold Let_def)
      ultimately show ?thesis by blast
    qed
  qed
qed

subsection \<open>What a returned Result holds\<close>

text \<open>
  The fields of a Result, once one is returned; that one is returned is
  \<open>execute_script_returns\<close>.
\<close>

lemma execute_script_error:
  assumes "execute_script env script s = (Inr r, s')"
  shows "(\<forall>e s1. apply_timeout env script s = (Inl e, s1) \<longrightarrow> error r = Some (exn_str e)) \<and>
         (\<forall>u s1 k sk e sk'.
            apply_timeout env script s = (Inr u, s1) \<longrightarrow>
            k < length (steps script) \<longrightarrow>
            steps_succeed env (take k (steps script)) s1 = Some sk \<longrightarrow>
            dispatch_step env (steps script ! k) sk = (Inl e, sk') \<longrightarrow>
            error r = Some (step_error_msg env (Suc k) (steps script ! k) e)) \<and>
         (\<forall>u s1 sn.
            apply_timeout env script s = (Inr u, s1) \<longrightarrow>
            steps_succeed env (steps script) s1 = Some sn \<longrightarrow>
            error r = None)"
proof (intro conjI allI impI)
  fix e s1
  assume "apply_timeout env script s = (Inl e, s1)"
  with assms have "script_failed env e
      ((new_result (name script))
         \<lparr>start_time := Some (fst (now env s)), steps_total := length (steps script)\<rparr>) s1
      = (Inr r, s')"
    by (simp add: execute_script_unfold Let_def)
  from script_failed_fields(3) [OF this] show "error r = Some (exn_str e)"
    by (simp add: new_result_def)
next
  fix u s1 k sk e sk'
  assume "apply_timeout env script s = (Inr u, s1)" and "k < length (steps script)"
    and "steps_succeed env (take k (steps script)) s1 = Some sk"
    and "dispatch_step env (steps script ! k) sk = (Inl e, sk')"
  with assms show "error r = Some (step_error_msg env (Suc k) (steps script ! k) e)"
    by (rule execute_script_step_failure(2))
next
  fix u s1 sn
  assume "apply_timeout env script s = (Inr u, s1)"
    and "steps_succeed env (steps script) s1 = Some sn"
  with assms show "error r = None"
    by (auto simp: execute_script_unfold Let_def run_steps_success new_result_def)
qed

lemma execute_script_passed:
  assumes "execute_script env script s = (Inr r, s')"
  shows "passed r \<longleftrightarrow>
         (\<exists>u s1 sn. apply_timeout env script s = (Inr u, s1) \<and>
                    steps_succeed env (steps script) s1 = Some sn)"
proof (cases "apply_timeout env script s")
  case (Pair x s1)
  show ?thesis
  proof (cases x)
    case (Inl e)
    with Pair assms show ?thesis
      by (auto simp: execute_script_unfold Let_def dest: script_failed_fields(1))
  next
    case (Inr u)
    obtain exo result' s2 where rs: "run_steps env script 1 (steps script)
        ((new_result (name script))
           \<lparr>start_time := Some (fst (now env s)), steps_total := length (steps script)\<rparr>) s1
        = ((exo, result'), s2)"
      by (metis prod.exhaust)
    show ?thesis
    proof (cases exo)
      case None
      with rs have "steps_succeed env (steps script) s1 = Some s2"
        by (auto dest: run_steps_completed)
      moreover from None rs Pair Inr assms have "passed r"
        by (auto simp: execute_script_unfold Let_def)
      ultimately show ?thesis using Pair Inr by simp
    next
      case (Some e)
      with rs Pair Inr assms have "\<not> passed r"
        by (auto simp: execute_script_unfold Let_def dest: script_failed_fields(1))
      moreover have "steps_succeed env (steps script) s1 = None"
      proof (rule ccontr)
        assume "steps_succeed env (steps script) s1 \<noteq> None"
        then obtain sn where "steps_succeed env (steps script) s1 = Some sn" by auto
        from run_steps_success [OF this] rs Some show False by simp
      qed
      ultimately show ?thesis using Pair Inr by simp
    qed
  qed
qed

lemma demo_no_interrupts: "no_interrupts demo_env"
  by (simp add: no_interrupts_def demo_env_def demo_drv_def split: call.splits)

lemma demo_pass_timeout:
  "apply_timeout demo_env c4_script demo_started =
     (Inr YNull, demo_started\<lparr>trace := take 1 demo_calls, ticks := 1\<rparr>)"
  using demo_apply_timeout [of "YStr ''t1''"]
  by (simp add: apply_timeout_def c4_script_def c4_no_name_def demo_script_def)

lemma demo_pass_steps:
  "steps_succeed demo_env (steps c4_script)
     (demo_started\<lparr>trace := take 1 demo_calls, ticks := 1\<rparr>) =
     Some (demo_started\<lparr>trace := take 2 demo_calls, ticks := 1\<rparr>)"
  using demo_prefix [of "YStr ''t1''"]
  by (simp add: c4_script_def c4_no_name_def demo_script_def)

lemma demo_unstarted_timeout:
  "apply_timeout demo_env c4_no_steps (init_engine True ''chromium'' [] 0) =
     (Inl (no_attribute ''NoneType'' ''set_default_timeout''),
      (init_engine True ''chromium'' [] 0)\<lparr>ticks := 1\<rparr>)"
  by (simp add: apply_timeout_def engine_page_call_def now_def init_engine_def)

subsection \<open>The error field\<close>

text \<open>
  Claim C5: the error of the returned Result is the message of the first failure and is
  never overwritten afterwards. When the browser library raises ordinary exceptions only,
  \<^verbatim>\<open>execute_script\<close> returns a Result, and in it: when applying the timeout raised, the
  error is the text of that exception; when step \<open>k + 1\<close> is the first step to raise,
  the error is the message "Step k+1 failed (action): text" built from that exception,
  whatever happens later in the handlers (a failing screenshot, a script name that is not
  a string); when nothing raised, the error is unset.
\<close>

theorem first_error_kept:
  assumes "no_interrupts env"
  shows "\<exists>r s'. execute_script env script s = (Inr r, s') \<and>
         (\<forall>e s1. apply_timeout env script s = (Inl e, s1) \<longrightarrow> error r = Some (exn_str e)) \<and>
         (\<forall>u s1 k sk e sk'.
            apply_timeout env script s = (Inr u, s1) \<longrightarrow>
            k < length (steps script) \<longrightarrow>
            steps_succeed env (take k (steps script)) s1 = Some sk \<longrightarrow>
            dispatch_step env (steps script ! k) sk = (Inl e, sk') \<longrightarrow>
            error r = Some (step_error_msg env (Suc k) (steps script ! k) e)) \<and>
         (\<forall>u s1 sn.
            apply_timeout env script s = (Inr u, s1) \<longrightarrow>
            steps_succeed env (steps script) s1 = Some sn \<longrightarrow>
            error r = None)"
proof -
  have "\<exists>r s'. execute_script env script s = (Inr r, s')"
    using execute_script_outcome [OF assms, of script s]
  proof (elim disjE exE conjE)
    fix r s'
    assume "execute_script env script s = (Inr r, s')"
    then show ?thesis by blast
  next
    fix e result s2
    assume "is_Exception e"
      and eq: "execute_script env script s = script_failed env e result s2"
    then have "\<exists>r s'. script_failed env e result s2 = (Inr r, s')"
      by (simp add: script_failed_def now_def Let_def)
    with eq show ?thesis by simp
  qed
  then obtain r s' where ret: "execute_script env script s = (Inr r, s')"
    by blast
  from execute_script_error [OF ret] ret show ?thesis
    by blast
qed

text \<open>
  Witness for C5: the run on an engine that was never started (the timeout cannot be
  applied), the run of the script whose second step times out and whose failure
  screenshot fails as well, and the run of a script that passes, each with the Result it
  returns.
\<close>

theorem first_error_kept_witness:
  "execute_script demo_env c4_no_steps (init_engine True ''chromium'' [] 0) =
     (Inr demo_unstarted_run, (init_engine True ''chromium'' [] 0)\<lparr>ticks := 2\<rparr>) \<and>
   error demo_unstarted_run = Some (exn_str (no_attribute ''NoneType'' ''set_default_timeout'')) \<and>
   execute_script demo_env (demo_script (YStr ''t1'')) demo_started =
     (Inr demo_failed_run, demo_started\<lparr>trace := demo_calls, ticks := 2\<rparr>) \<and>
   error demo_failed_run = Some ''Step 2 failed (click): Timeout 30000ms exceeded'' \<and>
   execute_script demo_env c4_script demo_started =
     (Inr demo_passed_run, demo_started\<lparr>trace := take 2 demo_calls, ticks := 2\<rparr>) \<and>
   error demo_passed_run = None"
proof -
  have run_unstarted: "execute_script demo_env c4_no_steps (init_engine True ''chromium'' [] 0) =
      (Inr demo_unstarted_run, (init_engine True ''chromium'' [] 0)\<lparr>ticks := 2\<rparr>)"
    by (simp add: engine_defs demo_env_def c4_no_steps_def init_engine_def
        demo_unstarted_run_def)
  have run_failed: "execute_script demo_env (demo_script (YStr ''t1'')) demo_started =
      (Inr demo_failed_run, demo_started\<lparr>trace := demo_calls, ticks := 2\<rparr>)"
    by (simp add: engine_defs action_defs demo_env_def demo_drv_def demo_script_def
        demo_started_def demo_calls_def demo_failed_run_def)
  have run_passed: "execute_script demo_env c4_script demo_started =
      (Inr demo_passed_run, demo_started\<lparr>trace := take 2 demo_calls, ticks := 2\<rparr>)"
    by (simp add: engine_defs action_defs demo_env_def demo_drv_def c4_script_def
        c4_no_name_def demo_started_def demo_calls_def demo_passed_run_def)
  note h = demo_no_interrupts
  from first_error_kept [OF h, of c4_no_steps "init_engine True ''chromium'' [] 0"]
    run_unstarted demo_unstarted_timeout
  have 1: "error demo_unstarted_run =
      Some (exn_str (no_attribute ''NoneType'' ''set_default_timeout''))"
    by auto
  have k: "1 < length (steps (demo_script (YStr ''t1'')))"
    by (simp add: demo_script_def)
  from first_error_kept [OF h, of "demo_script (YStr ''t1'')" demo_started] run_failed
  have "\<forall>u s1 k sk e sk'.
      apply_timeout demo_env (demo_script (YStr ''t1'')) demo_started = (Inr u, s1) \<longrightarrow>
      k < length (steps (demo_script (YStr ''t1''))) \<longrightarrow>
      steps_succeed demo_env (take k (steps (demo_script (YStr ''t1'')))) s1 = Some sk \<longrightarrow>
      dispatch_step demo_env (steps (demo_script (YStr ''t1'')) ! k) sk = (Inl e, sk') \<longrightarrow>
      error demo_failed_run =
        Some (step_error_msg demo_env (Suc k) (steps (demo_script (YStr ''t1'')) ! k) e)"
    by auto
  with demo_apply_timeout k demo_prefix demo_click
  have "error demo_failed_run =
      Some (step_error_msg demo_env (Suc 1) (steps (demo_script (YStr ''t1'')) ! 1) demo_timeout_exn)"
    by blast
  then have 2: "error demo_failed_run = Some ''Step 2 failed (click): Timeout 30000ms exceeded''"
    by (simp add: step_error_msg_def demo_script_def demo_timeout_exn_def dec_nat.simps
        demo_env_def)
  from first_error_kept [OF h, of c4_script demo_started] run_passed
    demo_pass_timeout demo_pass_steps
  have 3: "error demo_passed_run = None"
    by auto
  from 1 2 3 run_unstarted run_failed run_passed show ?thesis
    by simp
qed

subsection \<open>The step counter\<close>

text \<open>
  Claim C6: when a step fails, the run returns a Result whose \<^verbatim>\<open>steps_executed\<close> is the
  number of steps that completed before it. Step \<open>k + 1\<close> is the first to raise when
  the \<open>k\<close> steps before it are dispatched without raising and it raises in the state
  they leave; the browser library raises ordinary exceptions only.
\<close>

theorem steps_executed_on_failure:
  assumes "no_interrupts env"
    and "apply_timeout env script s = (Inr u, s1)"
    and "k < length (steps script)"
    and "steps_succeed env (take k (steps script)) s1 = Some sk"
    and "dispatch_step env (steps script ! k) sk = (Inl e, sk')"
  shows "\<exists>r s'. execute_script env script s = (Inr r, s') \<and> steps_executed r = k"
proof -
  have "\<exists>r s'. execute_script env script s = (Inr r, s')"
    using execute_script_outcome [OF assms(1), of script s]
  proof (elim disjE exE conjE)
    fix r s'
    assume "execute_script env script s = (Inr r, s')"
    then show ?thesis by blast
  next
    fix e result s2
    assume "is_Exception e"
      and eq: "execute_script env script s = script_failed env e result s2"
    then have "\<exists>r s'. script_failed env e result s2 = (Inr r, s')"
      by (simp add: script_failed_def now_def Let_def)
    with eq show ?thesis by simp
  qed
  then obtain r s' where ret: "execute_script env script s = (Inr r, s')"
    by blast
  from execute_script_step_failure(1) [OF ret assms(2-5)] ret show ?thesis
    by blast
qed

text \<open>
  Witness for C6: the run in which the second of two steps fails returns a Result with
  one executed step of two.
\<close>

theorem steps_executed_on_failure_witness:
  "execute_script demo_env (demo_script (YStr ''t1'')) demo_started =
     (Inr demo_failed_run, demo_started\<lparr>trace := demo_calls, ticks := 2\<rparr>) \<and>
   steps_executed demo_failed_run = 1 \<and> steps_total demo_failed_run = 2"
proof -
  have run_failed: "execute_script demo_env (demo_script (YStr ''t1'')) demo_started =
      (Inr demo_failed_run, demo_started\<lparr>trace := demo_calls, ticks := 2\<rparr>)"
    by (simp add: engine_defs action_defs demo_env_def demo_drv_def demo_script_def
        demo_started_def demo_calls_def demo_failed_run_def)
  have k: "1 < length (steps (demo_script (YStr ''t1'')))"
    by (simp add: demo_script_def)
  from steps_executed_on_failure
    [OF demo_no_interrupts demo_apply_timeout k demo_prefix demo_click] run_failed
  have "steps_executed demo_failed_run = 1"
    by auto
  with run_failed show ?thesis
    by (simp add: demo_failed_run_def)
qed

subsection \<open>The verdict\<close>

text \<open>
  Claim C7: every run returns a Result (the browser library raising ordinary exceptions
  only), and \<^verbatim>\<open>passed\<close> of that Result is true if and only if the timeout was applied
  and every step of the script was dispatched without raising, so that no exception
  reached the outer handler.
\<close>

theorem passed_iff_all_steps_succeed:
  assumes "no_interrupts env"
  shows "\<exists>r s'. execute_script env script s = (Inr r, s') \<and>
         (passed r \<longleftrightarrow>
          (\<exists>u s1 sn. apply_timeout env script s = (Inr u, s1) \<and>
                     steps_succeed env (steps script) s1 = Some sn))"
proof -
  have "\<exists>r s'. execute_script env script s = (Inr r, s')"
    using execute_script_outcome [OF assms, of script s]
  proof (elim disjE exE conjE)
    fix r s'
    assume "execute_script env script s = (Inr r, s')"
    then show ?thesis by blast
  next
    fix e result s2
    assume "is_Exception e"
      and eq: "execute_script env script s = script_failed env e result s2"
    then have "\<exists>r s'. script_failed env e result s2 = (Inr r, s')"
      by (simp add: script_failed_def now_def Let_def)
    with eq show ?thesis by simp
  qed
  then obtain r s' where ret: "execute_script env script s = (Inr r, s')"
    by blast
  from execute_script_passed [OF ret] ret show ?thesis
    by blast
qed

text \<open>
  Witness for C7: the failing run returns a Result that is not passed, the run without a
  failure one that is.
\<close>

theorem passed_iff_all_steps_succeed_witness:
  "execute_script demo_env (demo_script (YStr ''t1'')) demo_started =
     (Inr demo_failed_run, demo_started\<lparr>trace := demo_calls, ticks := 2\<rparr>) \<and>
   \<not> passed demo_failed_run \<and>
   execute_script demo_env c4_script demo_started =
     (Inr demo_passed_run, demo_started\<lparr>trace := take 2 demo_calls, ticks := 2\<rparr>) \<and>
   passed demo_passed_run"
proof -
  have run_failed: "execute_script demo_env (demo_script (YStr ''t1'')) demo_started =
      (Inr demo_failed_run, demo_started\<lparr>trace := demo_calls, ticks := 2\<rparr>)"
    by (simp add: engine_defs action_defs demo_env_def demo_drv_def demo_script_def
        demo_started_def demo_calls_def demo_failed_run_def)
  have run_passed: "execute_script demo_env c4_script demo_started =
      (Inr demo_passed_run, demo_started\<lparr>trace := take 2 demo_calls, ticks := 2\<rparr>)"
    by (simp add: engine_defs action_defs demo_env_def demo_drv_def c4_script_def
        c4_no_name_def demo_started_def demo_calls_def demo_passed_run_def)
  have f: "steps_succeed demo_env (steps (demo_script (YStr ''t1'')))
      (demo_started\<lparr>trace := take 1 demo_calls, ticks := 1\<rparr>) = None"
    using demo_navigate [of "YStr ''t1''"] demo_click [of "YStr ''t1''"]
    by (simp add: demo_script_def)
  from passed_iff_all_steps_succeed [OF demo_no_interrupts, of "demo_script (YStr ''t1'')" demo_started]
    run_failed demo_apply_timeout [of "YStr ''t1''"] f
  have 1: "\<not> passed demo_failed_run"
    by auto
  from passed_iff_all_steps_succeed [OF demo_no_interrupts, of c4_script demo_started]
    run_passed demo_pass_timeout demo_pass_steps
  have 2: "passed demo_passed_run"
    by auto
  from 1 2 run_failed run_passed show ?thesis
    by simp
qed

subsection \<open>A script without steps\<close>

text \<open>
  Claim C10, as stated: \<^verbatim>\<open>execute_script\<close> called directly on a script with no steps
  returns a passed Result with no error. It fails on an engine that was never started:
  \<^verbatim>\<open>self.page\<close> is still None, applying the timeout raises AttributeError inside the
  \<^verbatim>\<open>try\<close>, and the Result is failed with that error.
\<close>

theorem empty_script_unstarted_counterexample:
  "steps c4_no_steps = [] \<and>
   execute_script demo_env c4_no_steps (init_engine True ''chromium'' [] 0) =
     (Inr demo_unstarted_run, (init_engine True ''chromium'' [] 0)\<lparr>ticks := 2\<rparr>) \<and>
   \<not> passed demo_unstarted_run \<and> error demo_unstarted_run \<noteq> None"
  using demo_unstarted by (simp add: c4_no_steps_def demo_unstarted_run_def)

text \<open>
  Claim C10, amended: on an engine that has a page, and when the call that applies the
  timeout does not raise, \<^verbatim>\<open>execute_script\<close> on a script with no steps returns a Result
  with passed = true, no error, and steps_executed = steps_total = 0.
\<close>

theorem empty_script_passes:
  assumes "steps script = []" and "self_page s"
    and "drv env (trace s) (Call ''page.set_default_timeout'' [timeout script] []) = Inr u"
  shows "\<exists>r s'. execute_script env script s = (Inr r, s') \<and>
           passed r \<and> error r = None \<and> steps_executed r = 0 \<and> steps_total r = 0"
  using assms
  by (simp add: execute_script_def now_def engine_page_call_def perform_def new_result_def)

text \<open>Witness for C10 amended: the started example engine.\<close>

theorem empty_script_passes_witness:
  "\<exists>r s'. execute_script demo_env c4_no_steps demo_started = (Inr r, s') \<and>
           passed r \<and> error r = None \<and> steps_executed r = 0 \<and> steps_total r = 0"
proof -
  have h1: "steps c4_no_steps = []" by (simp add: c4_no_steps_def)
  have h2: "self_page demo_started" by (simp add: demo_started_def)
  have h3: "drv demo_env (trace demo_started)
      (Call ''page.set_default_timeout'' [timeout c4_no_steps] []) = Inr YNull"
    by (simp add: demo_env_def demo_drv_def)
  show ?thesis by (rule empty_script_passes [OF h1 h2 h3])
qed

subsection \<open>Timestamps of an execution\<close>

text \<open>
  No browser action reads the clock, so \<^verbatim>\<open>execute_script\<close> reads it exactly twice: the
  Result it returns has both timestamps, and its duration is non-negative exactly when
  the clock did not go back between the two readings.
\<close>

lemma perform_ticks: "ticks (snd (perform env c s)) = ticks s"
  by (simp add: perform_def)

lemma perform_count_ticks: "ticks (snd (perform_count env c s)) = ticks s"
  by (simp add: perform_count_def)

lemma page_call_ticks: "ticks (snd (page_call env m as kw s)) = ticks s"
  by (simp add: page_call_def perform_def split: option.splits)

lemma locator_count_ticks: "ticks (snd (locator_count env sel s)) = ticks s"
  using page_call_ticks [of env "''locator''" "[sel]" "[]" s]
  by (auto simp: locator_count_def perform_count_def split: prod.splits sum.splits)

lemma method_ticks:
  assumes "map_of methods a = Some m"
  shows "ticks (snd (m env ps s)) = ticks s"
proof -
  from assms have "(a, m) \<in> set methods" by (rule map_of_SomeD)
  then have "m \<in> snd ` set methods" by force
  then have "m = navigate \<or> m = click \<or> m = type_text \<or> m = wait_for_selector
      \<or> m = assert_text \<or> m = assert_visible \<or> m = upload_file \<or> m = screenshot \<or> m = wait
      \<or> m = select_option \<or> m = check \<or> m = uncheck \<or> m = hover \<or> m = press \<or> m = evaluate_js
      \<or> m = count_elements \<or> m = assert_count \<or> m = assert_min_count \<or> m = get_text"
    by (simp add: methods_def)
  then show ?thesis
  proof (elim disjE)
    assume "m = navigate" then show ?thesis
      by (simp add: navigate_def page_call_ticks split: option.splits)
  next
    assume "m = click" then show ?thesis
      by (simp add: click_def page_call_ticks split: option.splits)
  next
    assume "m = type_text" then show ?thesis
      by (simp add: type_text_def page_call_ticks split: option.splits)
  next
    assume "m = wait_for_selector" then show ?thesis
      by (simp add: wait_for_selector_def page_call_ticks split: option.splits)
  next
    assume "m = assert_text" then show ?thesis
      using page_call_ticks [of env "''locator''" "[arg ps ''selector'']" "[]" s]
      by (auto simp: assert_text_def perform_def split: option.splits prod.splits sum.splits)
  next
    assume "m = assert_visible" then show ?thesis
      using page_call_ticks [of env "''locator''" "[arg ps ''selector'']" "[]" s]
      by (auto simp: assert_visible_def perform_def split: option.splits prod.splits sum.splits)
  next
    assume "m = upload_file" then show ?thesis
      by (simp add: upload_file_def page_call_ticks split: option.splits yaml.splits)
  next
    assume "m = screenshot" then show ?thesis
      by (simp add: screenshot_def perform_def split: option.splits)
  next
    assume "m = wait" then show ?thesis
      by (simp add: wait_def page_call_ticks split: option.splits)
  next
    assume "m = select_option" then show ?thesis
      by (simp add: select_option_def page_call_ticks split: option.splits)
  next
    assume "m = check" then show ?thesis
      by (simp add: check_def page_call_ticks split: option.splits)
  next
    assume "m = uncheck" then show ?thesis
      by (simp add: uncheck_def page_call_ticks split: option.splits)
  next
    assume "m = hover" then show ?thesis
      by (simp add: hover_def page_call_ticks split: option.splits)
  next
    assume "m = press" then show ?thesis
      by (simp add: press_def page_call_ticks split: option.splits)
  next
    assume "m = evaluate_js" then show ?thesis
      by (simp add: evaluate_js_def page_call_ticks split: option.splits)
  next
    assume "m = count_elements" then show ?thesis
      using locator_count_ticks [of env "arg ps ''selector''" s]
      by (auto simp: count_elements_def split: option.splits prod.splits sum.splits)
  next
    assume "m = assert_count" then show ?thesis
      using locator_count_ticks [of env "arg ps ''selector''" s]
      by (auto simp: assert_count_def split: option.splits prod.splits sum.splits)
  next
    assume "m = assert_min_count" then show ?thesis
      using locator_count_ticks [of env "arg ps ''selector''" s]
      by (auto simp: assert_min_count_def split: option.splits prod.splits sum.splits)
  next
    assume "m = get_text" then show ?thesis
      using page_call_ticks [of env "''locator''" "[arg ps ''selector'']" "[]" s]
      by (auto simp: get_text_def perform_def split: option.splits prod.splits sum.splits)
  qed
qed

lemma execute_action_ticks: "ticks (snd (execute_action env act ps s)) = ticks s"
proof (induction env act ps s rule: execute_action.induct)
  case (1 env act ps s)
  show ?case
    apply (subst execute_action.simps)
    apply (auto simp: "1.IH" method_ticks [OF getattr_method]
        split: yaml.splits option.splits attr.splits)
    done
qed

lemma dispatch_step_ticks: "ticks (snd (dispatch_step env step s)) = ticks s"
  by (simp add: dispatch_step_def execute_action_ticks)

lemma step_failed_ticks: "ticks (snd (step_failed env script i step e result s)) = ticks s"
  by (auto simp: step_failed_def Let_def engine_page_call_def perform_def
      split: yaml.splits prod.splits sum.splits)

lemma run_steps_ticks: "ticks (snd (run_steps env script i ss result s)) = ticks s"
proof (induction ss arbitrary: i result s)
  case Nil
  show ?case by simp
next
  case (Cons st ss)
  have d: "ticks s1 = ticks s" if "dispatch_step env st s = (x, s1)" for x s1
    using dispatch_step_ticks [of env st s] that by simp
  have f: "ticks s2 = ticks s1"
    if "step_failed env script i st e result s1 = (y, s2)" for e y s1 s2
    using step_failed_ticks [of env script i st e result s1] that by simp
  show ?case
    by (auto simp: Cons.IH split: prod.splits sum.splits dest!: d f)
qed

lemma step_failed_times:
  "step_failed env script i step e result s = ((e', result'), s') \<Longrightarrow>
   start_time result' = start_time result"
  by (auto simp: step_failed_def Let_def split: if_splits yaml.splits prod.splits sum.splits)

lemma run_steps_times:
  "run_steps env script i ss result s = ((exo, result'), s') \<Longrightarrow>
   start_time result' = start_time result"
  by (induction ss arbitrary: i result s)
     (auto split: prod.splits sum.splits if_splits dest: step_failed_times)

lemma execute_script_times:
  assumes "execute_script env script s = (Inr r, s')"
  shows "start_time r = Some (clock env (ticks s)) \<and> end_time r = Some (clock env (Suc (ticks s)))"
proof -
  obtain x s1 where t: "apply_timeout env script s = (x, s1)" by (metis prod.exhaust)
  then have t1: "ticks s1 = Suc (ticks s)"
    by (auto simp: apply_timeout_def engine_page_call_def now_def perform_def split: if_splits)
  let ?r0 = "(new_result (name script))
      \<lparr>start_time := Some (fst (now env s)), steps_total := length (steps script)\<rparr>"
  obtain exo r' s2 where rs: "run_steps env script 1 (steps script) ?r0 s1 = ((exo, r'), s2)"
    by (metis prod.exhaust)
  from run_steps_ticks [of env script 1 "steps script" ?r0 s1] rs t1
  have t2: "ticks s2 = Suc (ticks s)" by simp
  from run_steps_times [OF rs] have st: "start_time r' = Some (clock env (ticks s))"
    by (simp add: now_def)
  from assms t rs t1 t2 st show ?thesis
    by (auto simp: execute_script_unfold Let_def script_failed_def now_def
        split: sum.splits option.splits if_splits)
qed

lemma execute_script_duration:
  assumes "execute_script env script s = (Inr r, s')"
  shows "0 \<le> duration r \<longleftrightarrow> clock env (ticks s) \<le> clock env (Suc (ticks s))"
  using execute_script_times [OF assms] by (simp add: duration_def)

section \<open>Running a batch\<close>

lemma run_test_file_load_error:
  "load_error env p = Some e \<Longrightarrow> run_test_file env p s = (Inl e, s)"
  by (auto simp: load_error_def run_test_file_def split: sum.splits if_splits)

lemma run_loop_acc:
  "run_loop env ps acc s =
     (case run_loop env ps [] s of
        (Inr rs, s') \<Rightarrow> (Inr (acc @ rs), s')
      | (Inl x, s') \<Rightarrow> (Inl x, s'))"
proof (induction ps arbitrary: acc s)
  case Nil
  show ?case by simp
next
  case (Cons p ps)
  show ?case
    by (simp add: Cons.IH [of "acc @ _"] Cons.IH [of "[_]"] split: prod.splits sum.splits)
qed

lemma run_loop_append:
  "run_loop env (ps @ qs) acc s =
     (case run_loop env ps acc s of
        (Inr rs, s') \<Rightarrow> run_loop env qs rs s'
      | (Inl x, s') \<Rightarrow> (Inl x, s'))"
  by (induction ps arbitrary: acc s) (auto split: prod.splits sum.splits)

text \<open>When the loop ends normally there is one Result for each script path.\<close>

lemma run_loop_length:
  "run_loop env ps acc s = (Inr rs, s') \<Longrightarrow> length rs = length acc + length ps"
  by (induction ps arbitrary: acc s) (fastforce split: prod.splits sum.splits if_splits)+

text \<open>
  Claim C9: a load or validation failure of one script of a batch does not stop the batch.
  When the scripts before it have been run and loading or validating script \<open>p\<close> raises
  an ordinary exception, the loop records a Result for \<open>p\<close> that is not passed and has
  the text of the exception as its error, leaves the engine as it was, and the outcome of
  the batch is that of the remaining scripts run from there, with their Results after the
  ones collected so far.
\<close>

theorem batch_continues_after_load_failure:
  assumes "run_loop env before [] s = (Inr rs1, s1)"
    and "load_error env p = Some e" and "is_Exception e"
  shows "run_loop env (before @ p # rest) [] s =
           (case run_loop env rest [] s1 of
              (Inr rs2, s2) \<Rightarrow> (Inr (rs1 @ failed_result p e # rs2), s2)
            | (Inl x, s2) \<Rightarrow> (Inl x, s2)) \<and>
         \<not> passed (failed_result p e) \<and> error (failed_result p e) = Some (exn_str e)"
proof -
  have "run_loop env (before @ p # rest) [] s = run_loop env (p # rest) rs1 s1"
    using assms(1) by (simp add: run_loop_append)
  also have "\<dots> = run_loop env rest (rs1 @ [failed_result p e]) s1"
    using run_test_file_load_error [OF assms(2)] assms(3) by simp
  also have "\<dots> = (case run_loop env rest [] s1 of
              (Inr rs2, s2) \<Rightarrow> (Inr ((rs1 @ [failed_result p e]) @ rs2), s2)
            | (Inl x, s2) \<Rightarrow> (Inl x, s2))"
    by (rule run_loop_acc)
  finally show ?thesis
    by (auto simp: failed_result_def new_result_def split: prod.splits sum.splits)
qed

lemma demo_nav_file:
  "run_test_file demo_env ''nav.yaml'' demo_started =
     (Inr demo_passed_run, demo_started\<lparr>trace := take 2 demo_calls, ticks := 2\<rparr>)"
proof -
  have "from_dict nav_data = Inr c4_script"
    by (simp add: from_dict_def nav_data_def dict_get_def dict_del_def keys_def
        c4_script_def c4_no_name_def)
  then have pf: "parse_file demo_env ''nav.yaml'' = Inr c4_script"
    by (simp add: parse_file_def demo_env_def)
  have v: "validate_script (repr demo_env) c4_script = Inr []"
    by (simp add: validate_script_def c4_script_def c4_no_name_def valid_actions_def keys_def)
  have b: "self_browser demo_started" "py_eq (headless c4_script) (self_headless demo_started)"
    by (simp_all add: demo_started_def c4_script_def c4_no_name_def py_eq_def)
  show ?thesis
    by (simp add: run_test_file_def pf v b demo_pass)
qed

text \<open>
  Witness for C9: a batch of a path that does not exist and a script that passes.
\<close>

theorem batch_continues_after_load_failure_witness:
  "run_loop demo_env [''missing.yaml'', ''nav.yaml''] [] demo_started =
     (Inr [failed_result ''missing.yaml'' missing_exn, demo_passed_run],
      demo_started\<lparr>trace := take 2 demo_calls, ticks := 2\<rparr>) \<and>
   \<not> passed (failed_result ''missing.yaml'' missing_exn) \<and>
   error (failed_result ''missing.yaml'' missing_exn) = Some ''Test script not found: missing.yaml'' \<and>
   passed demo_passed_run"
proof -
  have h1: "run_loop demo_env [] [] demo_started = (Inr [], demo_started)"
    by simp
  have h2: "load_error demo_env ''missing.yaml'' = Some missing_exn"
    by (simp add: load_error_def parse_file_def demo_env_def missing_exn_def)
  have h3: "is_Exception missing_exn"
    by (simp add: missing_exn_def)
  have r: "run_loop demo_env [''nav.yaml''] [] demo_started =
      (Inr [demo_passed_run], demo_started\<lparr>trace := take 2 demo_calls, ticks := 2\<rparr>)"
    by (simp add: demo_nav_file)
  from batch_continues_after_load_failure [OF h1 h2 h3, of "[''nav.yaml'']"] r
  show ?thesis
    by (simp add: missing_exn_def demo_passed_run_def)
qed

end
